theory Spec2Isabelle
  imports Main "HOL-Library.Word"
begin

section \<open>Data model of pa4.c\<close>

text \<open>
  The simulator keeps three globals: the ready queue \<open>processes\<close>, the running process
  \<open>current\<close> and the frame table \<open>mapcounts\<close>; \<open>ptbr\<close> points at the page table of
  \<open>current\<close> (both branches of \<open>switch_process\<close> set the two together).  The header
  \<open>vm.h\<close> is not part of the sources at hand, so the two array sizes are parameters.
\<close>

type_synonym u32 = "32 word"

record vm_config =
  NR_PTES_PER_PAGE :: nat
  NR_PAGEFRAMES :: nat

text \<open>
  The access flags.  \<open>alloc_page\<close> tests \<open>rw == 2 || rw == 3\<close> for write permission, and
  the line commented out in \<open>handle_page_fault\<close> tests \<open>rw == 1\<close> for a read: the flags
  are bits, read is 1 and write is 2.
\<close>

definition RW_READ :: nat where
  "RW_READ = 1"

definition RW_WRITE :: nat where
  "RW_WRITE = 2"

text \<open>
  Modelled from the spec: the declaration of \<open>struct pte\<close> is in \<open>vm.h\<close>, which is not
  among the sources; the spec gives an entry as \<open>{valid, writable, cow, pfn}\<close>, three flags
  and a frame number.  The code calls the COW flag \<open>private\<close> (a name Isabelle reserves,
  hence \<open>private_flag\<close>); it only ever stores 1 there and compares it with 0 and 1.
\<close>

record pte =
  valid :: bool
  writable :: bool
  pfn :: nat
  private_flag :: bool

type_synonym pte_directory = "pte list"

type_synonym pagetable = "pte_directory option list"

record process =
  pid :: nat
  pagetable :: pagetable

record vm_state =
  processes :: "process list"
  current :: process
  mapcounts :: "u32 list"

text \<open>What a run of the C code can end in besides a return.\<close>

datatype crash = NullDereference | OutOfBounds

text \<open>
  Memory from \<open>malloc\<close>.  The code takes a directory from \<open>malloc\<close> in \<open>alloc_page\<close>
  (line 83) and in the fork (line 222), and the child's \<open>struct process\<close> with its outer
  slots in the fork (line 218), and initialises none of them: a field the code does not
  store into keeps what the block held.  What the blocks hold is therefore a parameter of
  every function that allocates: \<open>fresh_pte h i j\<close> is entry \<open>j\<close> of the directory block
  handed out for outer slot \<open>i\<close>, and \<open>fresh_slot h i\<close> is outer slot \<open>i\<close> of the block
  of a new process, a null pointer or a pointer to memory that reads as the
  \<open>NR_PTES_PER_PAGE\<close> entries of a \<open>struct pte_directory\<close>.
\<close>

record heap =
  fresh_pte :: "nat \<Rightarrow> nat \<Rightarrow> pte"
  fresh_slot :: "nat \<Rightarrow> (nat \<Rightarrow> pte) option"

definition malloc_directory :: "vm_config \<Rightarrow> heap \<Rightarrow> nat \<Rightarrow> pte_directory" where
  "malloc_directory cfg h i = map (fresh_pte h i) [0..<NR_PTES_PER_PAGE cfg]"

definition malloc_pagetable :: "vm_config \<Rightarrow> heap \<Rightarrow> pagetable" where
  "malloc_pagetable cfg h =
     map (\<lambda>i. map_option (\<lambda>d. map d [0..<NR_PTES_PER_PAGE cfg]) (fresh_slot h i))
       [0..<NR_PTES_PER_PAGE cfg]"

definition ptbr :: "vm_state \<Rightarrow> pagetable" where
  "ptbr s = pagetable (current s)"

definition set_ptbr :: "pagetable \<Rightarrow> vm_state \<Rightarrow> vm_state" where
  "set_ptbr pt s = s\<lparr>current := (current s)\<lparr>pagetable := pt\<rparr>\<rparr>"

section \<open>alloc_page\<close>

text \<open>The scan \<open>for (ppn_index = 0; ppn_index < NR_PAGEFRAMES; ppn_index++)\<close> with its break.\<close>

function find_free :: "nat \<Rightarrow> u32 list \<Rightarrow> nat \<Rightarrow> nat" where
  "find_free nf mc i =
     (if i < nf then (if mc ! i = 0 then i else find_free nf mc (Suc i)) else i)"
  by pat_completeness auto
termination
  by (relation "measure (\<lambda>(nf, mc, i). nf - i)") auto

declare find_free.simps [simp del]

text \<open>
  The return value is an \<open>unsigned int\<close>: \<open>return -1\<close> is the word of all ones.  The test
  for a full memory comes before any access to the page table.
\<close>

definition alloc_page ::
    "vm_config \<Rightarrow> heap \<Rightarrow> nat \<Rightarrow> nat \<Rightarrow> vm_state \<Rightarrow> crash + (u32 \<times> vm_state)" where
  "alloc_page cfg h vpn rw s =
     (let outer_index = vpn div NR_PTES_PER_PAGE cfg;
          inner_index = vpn mod NR_PTES_PER_PAGE cfg;
          ppn_index = find_free (NR_PAGEFRAMES cfg) (mapcounts s) 0
      in if ppn_index \<ge> NR_PAGEFRAMES cfg then Inr (- 1, s)
         else if outer_index \<ge> NR_PTES_PER_PAGE cfg then Inl OutOfBounds
         else
           let dir = (case ptbr s ! outer_index of
                        None \<Rightarrow> malloc_directory cfg h outer_index
                      | Some d \<Rightarrow> d);
               e1 = (dir ! inner_index)\<lparr>valid := True, pfn := ppn_index\<rparr>;
               mc = (mapcounts s)[ppn_index := mapcounts s ! ppn_index + 1];
               e2 = (if rw = 2 \<or> rw = 3 then e1\<lparr>writable := True\<rparr> else e1)
           in Inr (word_of_nat ppn_index,
                   set_ptbr ((ptbr s)[outer_index := Some (dir[inner_index := e2])])
                     (s\<lparr>mapcounts := mc\<rparr>)))"

section \<open>free_page\<close>

text \<open>
  \<open>free_page\<close> returns nothing.  It reads the entry through the outer slot without a test,
  so an absent directory is a null dereference; the entry's \<open>private\<close> field is not
  written.
\<close>

definition free_page :: "vm_config \<Rightarrow> nat \<Rightarrow> vm_state \<Rightarrow> crash + vm_state" where
  "free_page cfg vpn s =
     (let outer_index = vpn div NR_PTES_PER_PAGE cfg;
          inner_index = vpn mod NR_PTES_PER_PAGE cfg
      in if outer_index \<ge> NR_PTES_PER_PAGE cfg then Inl OutOfBounds
         else case ptbr s ! outer_index of
           None \<Rightarrow> Inl NullDereference
         | Some dir \<Rightarrow>
             let ppn_index = pfn (dir ! inner_index);
                 e = (dir ! inner_index)\<lparr>valid := False, writable := False, pfn := 0\<rparr>
             in if ppn_index \<ge> NR_PAGEFRAMES cfg then Inl OutOfBounds
                else Inr (set_ptbr ((ptbr s)[outer_index := Some (dir[inner_index := e])])
                            (s\<lparr>mapcounts :=
                                 (mapcounts s)[ppn_index := mapcounts s ! ppn_index - 1]\<rparr>)))"

section \<open>handle_page_fault\<close>

text \<open>
  The result is \<open>Some b\<close> for \<open>return b\<close> and \<open>None\<close> when control reaches the closing
  brace of the function, which has no \<open>return\<close> there.  The first statement reads
  \<open>pfn\<close> through the outer slot before the slot is compared with \<open>NULL\<close>.  The value
  \<open>alloc_page\<close> returns is dropped.
\<close>

definition handle_page_fault ::
    "vm_config \<Rightarrow> heap \<Rightarrow> nat \<Rightarrow> nat \<Rightarrow> vm_state \<Rightarrow> crash + (bool option \<times> vm_state)" where
  "handle_page_fault cfg h vpn rw s =
     (let outer_index = vpn div NR_PTES_PER_PAGE cfg;
          inner_index = vpn mod NR_PTES_PER_PAGE cfg
      in if outer_index \<ge> NR_PTES_PER_PAGE cfg then Inl OutOfBounds
         else case ptbr s ! outer_index of
           None \<Rightarrow> Inl NullDereference
         | Some dir \<Rightarrow>
             let e = dir ! inner_index;
                 ppn_index = pfn e
             in if \<not> valid e then Inr (Some False, s)
                else if rw = RW_WRITE \<and> \<not> writable e \<and> \<not> private_flag e
                  then Inr (Some False, s)
                else if \<not> private_flag e then Inr (None, s)
                else if ppn_index \<ge> NR_PAGEFRAMES cfg then Inl OutOfBounds
                else if mapcounts s ! ppn_index > 1 then
                  (case alloc_page cfg h vpn RW_WRITE
                          (s\<lparr>mapcounts :=
                               (mapcounts s)[ppn_index := mapcounts s ! ppn_index - 1]\<rparr>) of
                     Inl c \<Rightarrow> Inl c
                   | Inr (r, s') \<Rightarrow> Inr (Some True, s'))
                else if mapcounts s ! ppn_index = 1 then
                  Inr (Some True,
                       set_ptbr ((ptbr s)[outer_index :=
                                   Some (dir[inner_index := e\<lparr>writable := True\<rparr>])]) s)
                else Inr (None, s))"

section \<open>switch_process\<close>

text \<open>\<open>list_for_each\<close> with its break: the position of the first process with the pid.\<close>

fun find_pid :: "nat \<Rightarrow> process list \<Rightarrow> nat option" where
  "find_pid p [] = None"
| "find_pid p (t # ts) =
     (if pid t = p then Some 0
      else case find_pid p ts of None \<Rightarrow> None | Some k \<Rightarrow> Some (Suc k))"

text \<open>
  The inner loop of the fork, over the entries \<open>j\<close> of one directory: \<open>pd\<close> is the
  parent's directory, \<open>cd\<close> the child's, \<open>mc\<close> the frame table.  In the child's entry
  the loop stores \<open>private\<close> (in the COW case), \<open>valid\<close> and \<open>pfn\<close>, and nothing for an
  entry that is invalid in the parent.
\<close>

function fork_ptes ::
    "vm_config \<Rightarrow> nat \<Rightarrow> pte_directory \<Rightarrow> pte_directory \<Rightarrow> u32 list \<Rightarrow>
     crash + (pte_directory \<times> pte_directory \<times> u32 list)" where
  "fork_ptes cfg j pd cd mc =
     (if j < NR_PTES_PER_PAGE cfg then
        (if valid (pd ! j) then
           (let cow = (writable (pd ! j) \<or> private_flag (pd ! j));
                pd1 = (if cow then pd[j := (pd ! j)\<lparr>writable := False, private_flag := True\<rparr>]
                       else pd);
                cd1 = (if cow then cd[j := (cd ! j)\<lparr>private_flag := True\<rparr>] else cd);
                cd2 = cd1[j := (cd1 ! j)\<lparr>valid := True, pfn := pfn (pd1 ! j)\<rparr>];
                f = pfn (pd1 ! j)
            in if f \<ge> NR_PAGEFRAMES cfg then Inl OutOfBounds
               else fork_ptes cfg (Suc j) pd1 cd2 (mc[f := mc ! f + 1]))
         else fork_ptes cfg (Suc j) pd cd mc)
      else Inr (pd, cd, mc))"
  by pat_completeness auto
termination
  by (relation "measure (\<lambda>(cfg, j, pd, cd, mc). NR_PTES_PER_PAGE cfg - j)") auto

declare fork_ptes.simps [simp del]

text \<open>
  The outer loop, over the slots \<open>i\<close> of the parent's table \<open>pt\<close>; \<open>ct\<close> is the child's.
  A slot the parent does not use is skipped, and the child's slot is not stored into.
\<close>

function fork_dirs ::
    "vm_config \<Rightarrow> heap \<Rightarrow> nat \<Rightarrow> pagetable \<Rightarrow> pagetable \<Rightarrow> u32 list \<Rightarrow>
     crash + (pagetable \<times> pagetable \<times> u32 list)" where
  "fork_dirs cfg h i pt ct mc =
     (if i < NR_PTES_PER_PAGE cfg then
        (case pt ! i of
           None \<Rightarrow> fork_dirs cfg h (Suc i) pt ct mc
         | Some pd \<Rightarrow>
             (case fork_ptes cfg 0 pd (malloc_directory cfg h i) mc of
                Inl c \<Rightarrow> Inl c
              | Inr (pd', cd', mc') \<Rightarrow>
                  fork_dirs cfg h (Suc i) (pt[i := Some pd']) (ct[i := Some cd']) mc'))
      else Inr (pt, ct, mc))"
  by pat_completeness auto
termination
  by (relation "measure (\<lambda>(cfg, h, i, pt, ct, mc). NR_PTES_PER_PAGE cfg - i)") auto

declare fork_dirs.simps [simp del]

text \<open>
  \<open>list_add_tail\<close> appends to the ready queue; \<open>list_del_init\<close> takes the found process
  out of it.
\<close>

definition switch_process ::
    "vm_config \<Rightarrow> heap \<Rightarrow> nat \<Rightarrow> vm_state \<Rightarrow> crash + vm_state" where
  "switch_process cfg h p s =
     (case find_pid p (processes s) of
        Some k \<Rightarrow>
          Inr (s\<lparr>processes := take k (processes s) @ drop (Suc k) (processes s) @ [current s],
                  current := processes s ! k\<rparr>)
      | None \<Rightarrow>
          (case fork_dirs cfg h 0 (ptbr s) (malloc_pagetable cfg h) (mapcounts s) of
             Inl c \<Rightarrow> Inl c
           | Inr (pt', ct', mc') \<Rightarrow>
               Inr (s\<lparr>processes := processes s @ [(current s)\<lparr>pagetable := pt'\<rparr>],
                       current := \<lparr>pid = p, pagetable = ct'\<rparr>,
                       mapcounts := mc'\<rparr>)))"

section \<open>Notions the properties are stated with\<close>

text \<open>
  The walk of the two-level table that all three functions start with: the entry for
  \<open>vpn\<close>, when the outer slot holds a directory.
\<close>

definition pte_at :: "vm_config \<Rightarrow> pagetable \<Rightarrow> nat \<Rightarrow> pte option" where
  "pte_at cfg pt vpn =
     (case pt ! (vpn div NR_PTES_PER_PAGE cfg) of
        None \<Rightarrow> None
      | Some dir \<Rightarrow> Some (dir ! (vpn mod NR_PTES_PER_PAGE cfg)))"

text \<open>
  The entry the code finds for \<open>vpn\<close> once the directory is there (in a directory just
  taken from \<open>malloc\<close>, what the block held), and the state after one store to that entry,
  the directory being made on demand as \<open>alloc_page\<close> does.
\<close>

definition entry_of :: "vm_config \<Rightarrow> heap \<Rightarrow> pagetable \<Rightarrow> nat \<Rightarrow> pte" where
  "entry_of cfg h pt vpn =
     (case pte_at cfg pt vpn of
        None \<Rightarrow> fresh_pte h (vpn div NR_PTES_PER_PAGE cfg) (vpn mod NR_PTES_PER_PAGE cfg)
      | Some e \<Rightarrow> e)"

definition set_pte :: "vm_config \<Rightarrow> heap \<Rightarrow> nat \<Rightarrow> pte \<Rightarrow> vm_state \<Rightarrow> vm_state" where
  "set_pte cfg h vpn e s =
     (let outer_index = vpn div NR_PTES_PER_PAGE cfg;
          inner_index = vpn mod NR_PTES_PER_PAGE cfg;
          dir = (case ptbr s ! outer_index of
                   None \<Rightarrow> malloc_directory cfg h outer_index
                 | Some d \<Rightarrow> d)
      in set_ptbr ((ptbr s)[outer_index := Some (dir[inner_index := e])]) s)"

text \<open>
  When a write access faults.  The comment above \<open>handle_page_fault\<close> lists the ways the
  translation fails: the page directory is invalid, the entry is invalid, or the entry is
  not writable and the access is a write.
\<close>

definition write_faults :: "vm_config \<Rightarrow> vm_state \<Rightarrow> nat \<Rightarrow> bool" where
  "write_faults cfg s vpn =
     (case pte_at cfg (ptbr s) vpn of
        None \<Rightarrow> True
      | Some e \<Rightarrow> \<not> valid e \<or> \<not> writable e)"

text \<open>
  The sizes the C types fix: the loop index of \<open>alloc_page\<close> is an \<open>int\<close>, both arrays of a
  page table have \<open>NR_PTES_PER_PAGE\<close> elements, the frame table has \<open>NR_PAGEFRAMES\<close>.  A
  state is well formed when, beyond that, every valid entry names a frame of the table.
\<close>

definition sized_directory :: "vm_config \<Rightarrow> pte_directory option \<Rightarrow> bool" where
  "sized_directory cfg d =
     (case d of None \<Rightarrow> True | Some ptes \<Rightarrow> length ptes = NR_PTES_PER_PAGE cfg)"

definition sized_pagetable :: "vm_config \<Rightarrow> pagetable \<Rightarrow> bool" where
  "sized_pagetable cfg pt =
     (length pt = NR_PTES_PER_PAGE cfg \<and> list_all (sized_directory cfg) pt)"

definition sized_state :: "vm_config \<Rightarrow> vm_state \<Rightarrow> bool" where
  "sized_state cfg s =
     (length (mapcounts s) = NR_PAGEFRAMES cfg \<and> sized_pagetable cfg (ptbr s))"

definition wf_config :: "vm_config \<Rightarrow> bool" where
  "wf_config cfg = (0 < NR_PTES_PER_PAGE cfg \<and> NR_PAGEFRAMES cfg < 2 ^ 31)"

definition wf_pte :: "vm_config \<Rightarrow> pte \<Rightarrow> bool" where
  "wf_pte cfg e = (if valid e then pfn e < NR_PAGEFRAMES cfg else True)"

definition wf_directory :: "vm_config \<Rightarrow> pte_directory option \<Rightarrow> bool" where
  "wf_directory cfg d =
     (case d of
        None \<Rightarrow> True
      | Some ptes \<Rightarrow> length ptes = NR_PTES_PER_PAGE cfg \<and> list_all (wf_pte cfg) ptes)"

definition wf_pagetable :: "vm_config \<Rightarrow> pagetable \<Rightarrow> bool" where
  "wf_pagetable cfg pt =
     (length pt = NR_PTES_PER_PAGE cfg \<and> list_all (wf_directory cfg) pt)"

definition wf_state :: "vm_config \<Rightarrow> vm_state \<Rightarrow> bool" where
  "wf_state cfg s =
     (length (mapcounts s) = NR_PAGEFRAMES cfg \<and>
      wf_pagetable cfg (ptbr s) \<and>
      list_all (\<lambda>p. wf_pagetable cfg (pagetable p)) (processes s))"

text \<open>The number of valid entries that name frame \<open>f\<close>: in a directory, a table, the system.\<close>

definition refers :: "nat \<Rightarrow> pte \<Rightarrow> nat" where
  "refers f e = (if valid e \<and> pfn e = f then 1 else 0)"

definition dir_refs :: "nat \<Rightarrow> pte_directory option \<Rightarrow> nat" where
  "dir_refs f d = (case d of None \<Rightarrow> 0 | Some ptes \<Rightarrow> sum_list (map (refers f) ptes))"

definition pt_refs :: "nat \<Rightarrow> pagetable \<Rightarrow> nat" where
  "pt_refs f pt = sum_list (map (dir_refs f) pt)"

definition total_refs :: "nat \<Rightarrow> vm_state \<Rightarrow> nat" where
  "total_refs f s =
     pt_refs f (ptbr s) + sum_list (map (\<lambda>p. pt_refs f (pagetable p)) (processes s))"

text \<open>The number of valid entries, whatever frame they name.\<close>

definition dir_valid :: "pte_directory option \<Rightarrow> nat" where
  "dir_valid d = (case d of None \<Rightarrow> 0 | Some ptes \<Rightarrow> length (filter valid ptes))"

definition pt_valid :: "pagetable \<Rightarrow> nat" where
  "pt_valid pt = sum_list (map dir_valid pt)"

definition total_valid :: "vm_state \<Rightarrow> nat" where
  "total_valid s =
     pt_valid (ptbr s) + sum_list (map (\<lambda>p. pt_valid (pagetable p)) (processes s))"

text \<open>Every frame's share count is the number of valid entries that name the frame.\<close>

definition share_inv :: "vm_config \<Rightarrow> vm_state \<Rightarrow> bool" where
  "share_inv cfg s =
     list_all (\<lambda>f. unat (mapcounts s ! f) = total_refs f s) [0..<NR_PAGEFRAMES cfg]"

text \<open>
  A heap without stale mappings: no block holds an entry with \<open>valid\<close> set, and the outer
  slots of a new process are null.  (\<open>calloc\<close> would give that; \<open>malloc\<close> need not.)
\<close>

definition blank_heap :: "vm_config \<Rightarrow> heap \<Rightarrow> bool" where
  "blank_heap cfg h =
     list_all
       (\<lambda>i. fresh_slot h i = None \<and>
            list_all (\<lambda>j. \<not> valid (fresh_pte h i j)) [0..<NR_PTES_PER_PAGE cfg])
       [0..<NR_PTES_PER_PAGE cfg]"

text \<open>
  What the fork does to one entry \<open>e\<close> of the parent, and what it makes of the entry \<open>c\<close>
  that the child's new directory holds at the same place: each pass of the inner loop of
  \<open>switch_process\<close>, written without the loop, for the proofs to compare the loops with.
\<close>

definition fork_parent_pte :: "pte \<Rightarrow> pte" where
  "fork_parent_pte e =
     (if valid e \<and> (writable e \<or> private_flag e)
      then e\<lparr>writable := False, private_flag := True\<rparr> else e)"

definition fork_child_pte :: "pte \<Rightarrow> pte \<Rightarrow> pte" where
  "fork_child_pte e c =
     (if valid e
      then \<lparr>valid = True, writable = writable c, pfn = pfn e,
            private_flag = (writable e \<or> private_flag e \<or> private_flag c)\<rparr>
      else c)"

definition fork_parent_table :: "pagetable \<Rightarrow> pagetable" where
  "fork_parent_table pt = map (map_option (map fork_parent_pte)) pt"

definition fork_child_slot ::
    "vm_config \<Rightarrow> heap \<Rightarrow> pagetable \<Rightarrow> nat \<Rightarrow> pte_directory option" where
  "fork_child_slot cfg h pt i =
     (case pt ! i of
        None \<Rightarrow> map_option (\<lambda>d. map d [0..<NR_PTES_PER_PAGE cfg]) (fresh_slot h i)
      | Some pd \<Rightarrow>
          Some (map (\<lambda>j. fork_child_pte (pd ! j) (fresh_pte h i j)) [0..<NR_PTES_PER_PAGE cfg]))"

definition fork_child_table :: "vm_config \<Rightarrow> heap \<Rightarrow> pagetable \<Rightarrow> pagetable" where
  "fork_child_table cfg h pt = map (fork_child_slot cfg h pt) [0..<NR_PTES_PER_PAGE cfg]"

definition fork_counts :: "vm_config \<Rightarrow> pagetable \<Rightarrow> u32 list \<Rightarrow> u32 list" where
  "fork_counts cfg pt mc =
     map (\<lambda>f. mc ! f + word_of_nat (pt_refs f pt)) [0..<NR_PAGEFRAMES cfg]"

text \<open>The state a fork of process \<open>p\<close> leaves, in these terms.\<close>

definition fork_state :: "vm_config \<Rightarrow> heap \<Rightarrow> nat \<Rightarrow> vm_state \<Rightarrow> vm_state" where
  "fork_state cfg h p s =
     \<lparr>processes = processes s @ [(current s)\<lparr>pagetable := fork_parent_table (ptbr s)\<rparr>],
      current = \<lparr>pid = p, pagetable = fork_child_table cfg h (ptbr s)\<rparr>,
      mapcounts = fork_counts cfg (ptbr s) (mapcounts s)\<rparr>"

section \<open>Small systems to run the code on\<close>

text \<open>Four virtual pages in two directories, and two frames.\<close>

definition cfg2 :: vm_config where
  "cfg2 = \<lparr>NR_PTES_PER_PAGE = 2, NR_PAGEFRAMES = 2\<rparr>"

definition zero_pte :: pte where
  "zero_pte = \<lparr>valid = False, writable = False, pfn = 0, private_flag = False\<rparr>"

text \<open>A heap whose blocks are all zero, and one whose blocks were used before.\<close>

definition zero_heap :: heap where
  "zero_heap = \<lparr>fresh_pte = (\<lambda>i j. zero_pte), fresh_slot = (\<lambda>i. None)\<rparr>"

definition used_heap :: heap where
  "used_heap =
     \<lparr>fresh_pte = (\<lambda>i j. \<lparr>valid = True, writable = True, pfn = 1, private_flag = False\<rparr>),
      fresh_slot = (\<lambda>i. None)\<rparr>"

definition rw_pte :: "nat \<Rightarrow> pte" where
  "rw_pte f = \<lparr>valid = True, writable = True, pfn = f, private_flag = False\<rparr>"

definition cow_pte :: "nat \<Rightarrow> pte" where
  "cow_pte f = \<lparr>valid = True, writable = False, pfn = f, private_flag = True\<rparr>"

text \<open>Nothing is mapped: the first process and the frame table are static, hence zero.\<close>

definition boot :: "vm_config \<Rightarrow> vm_state" where
  "boot cfg =
     \<lparr>processes = [],
      current = \<lparr>pid = 0, pagetable = replicate (NR_PTES_PER_PAGE cfg) None\<rparr>,
      mapcounts = replicate (NR_PAGEFRAMES cfg) 0\<rparr>"

text \<open>Process 0 alone, page 0 on frame 0 for writing; frame 1 is free.\<close>

definition one_page :: vm_state where
  "one_page =
     \<lparr>processes = [],
      current = \<lparr>pid = 0, pagetable = [Some [rw_pte 0, zero_pte], None]\<rparr>,
      mapcounts = [1, 0]\<rparr>"

text \<open>Process 0 alone, pages 0 and 1 on frames 0 and 1 for writing; no frame is free.\<close>

definition two_pages :: vm_state where
  "two_pages =
     \<lparr>processes = [],
      current = \<lparr>pid = 0, pagetable = [Some [rw_pte 0, rw_pte 1], None]\<rparr>,
      mapcounts = [1, 1]\<rparr>"

text \<open>After process 0 of \<open>one_page\<close> forked process 1: page 0 is shared.\<close>

definition forked :: vm_state where
  "forked =
     \<lparr>processes = [\<lparr>pid = 0, pagetable = [Some [cow_pte 0, zero_pte], None]\<rparr>],
      current = \<lparr>pid = 1, pagetable = [Some [cow_pte 0, zero_pte], None]\<rparr>,
      mapcounts = [2, 0]\<rparr>"

text \<open>After process 0 of \<open>two_pages\<close> forked process 1: both pages are shared.\<close>

definition forked_full :: vm_state where
  "forked_full =
     \<lparr>processes = [\<lparr>pid = 0, pagetable = [Some [cow_pte 0, cow_pte 1], None]\<rparr>],
      current = \<lparr>pid = 1, pagetable = [Some [cow_pte 0, cow_pte 1], None]\<rparr>,
      mapcounts = [2, 2]\<rparr>"

text \<open>
  After process 1 of \<open>forked\<close> wrote to page 0: it has frame 1 to itself, and the entry
  of process 0 is as the fork left it.
\<close>

definition owned_pte :: "nat \<Rightarrow> pte" where
  "owned_pte f = \<lparr>valid = True, writable = True, pfn = f, private_flag = True\<rparr>"

definition cow_broken :: vm_state where
  "cow_broken =
     \<lparr>processes = [\<lparr>pid = 0, pagetable = [Some [cow_pte 0, zero_pte], None]\<rparr>],
      current = \<lparr>pid = 1, pagetable = [Some [owned_pte 1, zero_pte], None]\<rparr>,
      mapcounts = [1, 1]\<rparr>"

text \<open>The same system with process 0 running again.\<close>

definition parent_again :: vm_state where
  "parent_again =
     \<lparr>processes = [\<lparr>pid = 1, pagetable = [Some [owned_pte 1, zero_pte], None]\<rparr>],
      current = \<lparr>pid = 0, pagetable = [Some [cow_pte 0, zero_pte], None]\<rparr>,
      mapcounts = [1, 1]\<rparr>"

section \<open>Evaluation of the definitions\<close>

lemmas ex_defs = cfg2_def forked_full_def forked_def one_page_def two_pages_def boot_def
  cow_broken_def parent_again_def owned_pte_def
  cow_pte_def rw_pte_def zero_pte_def zero_heap_def used_heap_def
  malloc_pagetable_def malloc_directory_def
lemmas wf_defs = wf_state_def wf_pagetable_def wf_directory_def wf_pte_def wf_config_def ptbr_def
lemmas refs_defs = share_inv_def total_refs_def pt_refs_def dir_refs_def refers_def ptbr_def

lemma find_free_step:
  "i < nf \<Longrightarrow> mc ! i \<noteq> 0 \<Longrightarrow> find_free nf mc i = find_free nf mc (Suc i)"
  by (subst find_free.simps) simp

lemma find_free_stop: "\<not> (i < nf \<and> mc ! i \<noteq> 0) \<Longrightarrow> find_free nf mc i = i"
  by (subst find_free.simps) auto

lemma find_free_is_free: "find_free nf mc i < nf \<Longrightarrow> mc ! find_free nf mc i = 0"
proof (induction nf mc i rule: find_free.induct)
  case (1 nf mc i)
  show ?case
  proof (cases "i < nf \<and> mc ! i \<noteq> 0")
    case True
    with 1 show ?thesis by (simp add: find_free_step)
  next
    case False
    then have "find_free nf mc i = i" by (rule find_free_stop)
    with "1.prems" False show ?thesis by auto
  qed
qed

lemma find_free_least: "i \<le> k \<Longrightarrow> k < find_free nf mc i \<Longrightarrow> mc ! k \<noteq> 0"
proof (induction nf mc i rule: find_free.induct)
  case (1 nf mc i)
  show ?case
  proof (cases "i < nf \<and> mc ! i \<noteq> 0")
    case True
    then have step: "find_free nf mc i = find_free nf mc (Suc i)"
      by (simp add: find_free_step)
    show ?thesis
    proof (cases "k = i")
      case True
      with \<open>i < nf \<and> mc ! i \<noteq> 0\<close> show ?thesis by simp
    next
      case False
      with "1.prems" have "Suc i \<le> k" by simp
      with "1.IH" True "1.prems" step show ?thesis by simp
    qed
  next
    case False
    then have "find_free nf mc i = i" by (rule find_free_stop)
    with "1.prems" show ?thesis by simp
  qed
qed

lemma find_free_finds:
  assumes "i \<le> k" and "k < nf" and "mc ! k = 0"
  shows "find_free nf mc i < nf"
proof (rule ccontr)
  assume "\<not> find_free nf mc i < nf"
  with assms have "k < find_free nf mc i" by simp
  with find_free_least [OF assms(1)] assms(3) show False by blast
qed

lemma find_free_full_iff:
  "(NR_PAGEFRAMES cfg \<le> find_free (NR_PAGEFRAMES cfg) mc 0) \<longleftrightarrow>
   (\<forall>f < NR_PAGEFRAMES cfg. mc ! f \<noteq> 0)"
proof
  assume full: "NR_PAGEFRAMES cfg \<le> find_free (NR_PAGEFRAMES cfg) mc 0"
  show "\<forall>f < NR_PAGEFRAMES cfg. mc ! f \<noteq> 0"
  proof (intro allI impI)
    fix f assume "f < NR_PAGEFRAMES cfg"
    with full have "f < find_free (NR_PAGEFRAMES cfg) mc 0" by simp
    then show "mc ! f \<noteq> 0" using find_free_least [of 0 f] by simp
  qed
next
  assume "\<forall>f < NR_PAGEFRAMES cfg. mc ! f \<noteq> 0"
  then show "NR_PAGEFRAMES cfg \<le> find_free (NR_PAGEFRAMES cfg) mc 0"
    using find_free_is_free [of "NR_PAGEFRAMES cfg" mc 0] by (meson not_le_imp_less)
qed

lemma unat_m1: "unat (- 1 :: u32) = 4294967295"
  by (simp add: unsigned_minus_1_eq_mask mask_eq_exp_minus_1)

lemma frame_number_not_minus_one:
  assumes "n < 2 ^ 31"
  shows "(word_of_nat n :: u32) \<noteq> - 1"
proof
  assume "(word_of_nat n :: u32) = - 1"
  then have "unat (word_of_nat n :: u32) = unat (- 1 :: u32)" by simp
  moreover from assms have "unat (word_of_nat n :: u32) = n"
    by (simp add: unat_of_nat)
  ultimately show False using assms by (simp add: unat_m1)
qed

lemma u32_ge_1: "(1 \<le> (w :: u32)) \<longleftrightarrow> w \<noteq> 0"
  using word_le_sub1 by auto

section \<open>alloc_page: a full memory\<close>

text \<open>
  Claim C10.  \<open>alloc_page\<close> returns -1 exactly when every frame's share count is at
  least 1 at the call, and when it returns -1 the state it leaves is the state it was
  called in: no entry, no directory and no share count has changed.
\<close>

theorem alloc_page_out_of_memory:
  assumes "wf_config cfg"
  shows "((\<exists>s'. alloc_page cfg h vpn rw s = Inr (- 1, s')) \<longleftrightarrow>
          (\<forall>f < NR_PAGEFRAMES cfg. 1 \<le> mapcounts s ! f)) \<and>
         (\<forall>s'. alloc_page cfg h vpn rw s = Inr (- 1, s') \<longrightarrow> s' = s)"
proof -
  let ?g = "find_free (NR_PAGEFRAMES cfg) (mapcounts s) 0"
  have full: "NR_PAGEFRAMES cfg \<le> ?g \<Longrightarrow> alloc_page cfg h vpn rw s = Inr (- 1, s)"
    by (simp add: alloc_page_def Let_def)
  have free: "\<not> (\<exists>s'. alloc_page cfg h vpn rw s = Inr (- 1, s'))" if "?g < NR_PAGEFRAMES cfg"
  proof -
    from that assms have "?g < 2 ^ 31" by (simp add: wf_config_def)
    then have "(word_of_nat ?g :: u32) \<noteq> - 1" by (rule frame_number_not_minus_one)
    with that show ?thesis by (auto simp add: alloc_page_def Let_def)
  qed
  have iff: "(\<exists>s'. alloc_page cfg h vpn rw s = Inr (- 1, s')) \<longleftrightarrow> NR_PAGEFRAMES cfg \<le> ?g"
    using full free by (cases "NR_PAGEFRAMES cfg \<le> ?g") auto
  have same: "\<forall>s'. alloc_page cfg h vpn rw s = Inr (- 1, s') \<longrightarrow> s' = s"
    using full free by (cases "NR_PAGEFRAMES cfg \<le> ?g") auto
  from iff same show ?thesis
    by (simp add: find_free_full_iff u32_ge_1)
qed

text \<open>With both frames of \<open>forked_full\<close> in use, the call returns -1 and the state stays.\<close>

theorem alloc_page_out_of_memory_witness:
  "wf_config cfg2 \<and> alloc_page cfg2 zero_heap 0 RW_WRITE forked_full = Inr (- 1, forked_full)"
proof -
  have wf: "wf_config cfg2" by (simp add: cfg2_def wf_config_def)
  have full: "\<forall>f < NR_PAGEFRAMES cfg2. 1 \<le> mapcounts forked_full ! f"
    by (simp add: cfg2_def forked_full_def less_Suc_eq numeral_2_eq_2)
  from alloc_page_out_of_memory
      [OF wf, where h = zero_heap and vpn = 0 and rw = RW_WRITE and s = forked_full]
    full wf
  show ?thesis by blast
qed

section \<open>handle_page_fault: what it reports\<close>

text \<open>
  Claim C5 has \<open>handle_page_fault\<close> look at the page table before it reads any field of
  an entry, and return false for an absent directory without dereferencing it.  The code
  reads \<open>pfn\<close> through the outer slot in its first statement and compares the slot with
  \<open>NULL\<close> in the second: whenever the outer slot of \<open>vpn\<close> is empty, the call ends in
  the null dereference, for a read as for a write.
\<close>

theorem handle_page_fault_absent_directory:
  assumes "vpn div NR_PTES_PER_PAGE cfg < NR_PTES_PER_PAGE cfg"
    and "ptbr s ! (vpn div NR_PTES_PER_PAGE cfg) = None"
  shows "handle_page_fault cfg h vpn rw s = Inl NullDereference"
  using assms by (simp add: handle_page_fault_def)

text \<open>A read of page 0 when nothing is mapped.\<close>

theorem handle_page_fault_absent_directory_witness:
  "handle_page_fault cfg2 zero_heap 0 RW_READ (boot cfg2) = Inl NullDereference"
  using handle_page_fault_absent_directory
      [where vpn = 0 and cfg = cfg2 and s = "boot cfg2" and h = zero_heap and rw = RW_READ]
  by (simp add: ex_defs ptbr_def)

text \<open>
  Claim C6 has \<open>handle_page_fault\<close> return false exactly when the page is unmapped
  (the directory is absent or the entry invalid) or the access is a write to a valid entry
  that is neither writable nor COW.  The code returns false exactly when the directory is
  present and the entry is invalid, or is valid, written to, not writable and not COW: the
  absent directory is missing from its cases, since the call has crashed by then.
\<close>

theorem handle_page_fault_false_iff:
  "(\<exists>s'. handle_page_fault cfg h vpn rw s = Inr (Some False, s')) \<longleftrightarrow>
   (\<exists>e. vpn div NR_PTES_PER_PAGE cfg < NR_PTES_PER_PAGE cfg \<and>
        pte_at cfg (ptbr s) vpn = Some e \<and>
        (\<not> valid e \<or> rw = RW_WRITE \<and> \<not> writable e \<and> \<not> private_flag e))"
  by (auto simp add: handle_page_fault_def pte_at_def Let_def
      split: option.splits sum.splits if_splits)

text \<open>Page 3 of \<open>one_page\<close> lies under the empty outer slot 1: a write to it is not reported.\<close>

theorem handle_page_fault_false_iff_witness:
  "pte_at cfg2 (ptbr one_page) 3 = None \<and>
   handle_page_fault cfg2 zero_heap 3 RW_WRITE one_page \<noteq> Inr (Some False, one_page)"
  using handle_page_fault_false_iff
      [where cfg = cfg2 and h = zero_heap and vpn = 3 and rw = RW_WRITE and s = one_page]
  by (auto simp add: ex_defs ptbr_def pte_at_def)

text \<open>
  Claim C8 has \<open>handle_page_fault\<close> return success and change nothing for a write to an
  entry that is valid and writable.  When such an entry is not marked COW, the code passes
  all four of its tests and reaches the end of the function, where there is no \<open>return\<close>:
  the state is unchanged, and no value is returned.
\<close>

theorem handle_page_fault_writable_no_return:
  assumes "vpn div NR_PTES_PER_PAGE cfg < NR_PTES_PER_PAGE cfg"
    and "pte_at cfg (ptbr s) vpn = Some e"
    and "valid e" and "writable e" and "\<not> private_flag e"
  shows "handle_page_fault cfg h vpn RW_WRITE s = Inr (None, s)"
  using assms
  by (auto simp add: handle_page_fault_def pte_at_def Let_def split: option.splits)

text \<open>A write to page 0 of \<open>one_page\<close>, which is mapped for writing.\<close>

theorem handle_page_fault_writable_no_return_witness:
  "pte_at cfg2 (ptbr one_page) 0 = Some (rw_pte 0) \<and>
   handle_page_fault cfg2 zero_heap 0 RW_WRITE one_page = Inr (None, one_page)"
  using handle_page_fault_writable_no_return
      [where vpn = 0 and cfg = cfg2 and s = one_page and e = "rw_pte 0" and h = zero_heap]
  by (simp add: ex_defs ptbr_def pte_at_def)

section \<open>Facts about the table walk and the scan\<close>

lemma outer_index_bound:
  "vpn < NR_PTES_PER_PAGE cfg * NR_PTES_PER_PAGE cfg \<Longrightarrow>
   vpn div NR_PTES_PER_PAGE cfg < NR_PTES_PER_PAGE cfg"
  by (simp add: less_mult_imp_div_less)

lemma wf_pagetable_dir:
  assumes "wf_pagetable cfg pt" and "i < NR_PTES_PER_PAGE cfg" and "pt ! i = Some dir"
  shows "length dir = NR_PTES_PER_PAGE cfg \<and> list_all (wf_pte cfg) dir"
proof -
  from assms(1,2) have "wf_directory cfg (pt ! i)"
    by (simp add: wf_pagetable_def list_all_length)
  with assms(3) show ?thesis by (simp add: wf_directory_def)
qed

lemma pte_at_SomeD:
  assumes "pte_at cfg pt vpn = Some e"
  shows "\<exists>dir. pt ! (vpn div NR_PTES_PER_PAGE cfg) = Some dir \<and>
               e = dir ! (vpn mod NR_PTES_PER_PAGE cfg)"
  using assms by (auto simp add: pte_at_def split: option.splits)

lemma pte_at_update:
  assumes "vpn div NR_PTES_PER_PAGE cfg < length pt"
    and "vpn mod NR_PTES_PER_PAGE cfg < length dir"
  shows "pte_at cfg (pt[vpn div NR_PTES_PER_PAGE cfg :=
                        Some (dir[vpn mod NR_PTES_PER_PAGE cfg := e])]) vpn = Some e"
  using assms by (simp add: pte_at_def)

lemma ptbr_set_ptbr [simp]: "ptbr (set_ptbr pt s) = pt"
  by (simp add: ptbr_def set_ptbr_def)

lemma ptbr_mapcounts_update [simp]: "ptbr (s\<lparr>mapcounts := mc\<rparr>) = ptbr s"
  by (simp add: ptbr_def)

lemma mapcounts_set_ptbr [simp]: "mapcounts (set_ptbr pt s) = mapcounts s"
  by (simp add: set_ptbr_def)

lemma processes_set_ptbr [simp]: "processes (set_ptbr pt s) = processes s"
  by (simp add: set_ptbr_def)

lemma find_free_zero_pattern:
  assumes "\<forall>k<nf. (mc ! k = 0) = (mc' ! k = 0)"
  shows "find_free nf mc i = find_free nf mc' i"
  using assms
proof (induction nf mc i rule: find_free.induct)
  case (1 nf mc i)
  show ?case
  proof (cases "i < nf \<and> mc ! i \<noteq> 0")
    case True
    with "1.prems" have "i < nf \<and> mc' ! i \<noteq> 0" by blast
    with True "1.IH" "1.prems" show ?thesis by (simp add: find_free_step)
  next
    case False
    with "1.prems" have "\<not> (i < nf \<and> mc' ! i \<noteq> 0)" by auto
    with False show ?thesis by (simp add: find_free_stop)
  qed
qed

lemma u32_pred_nonzero: "1 < (w :: u32) \<Longrightarrow> w - 1 \<noteq> 0"
  by auto

lemma find_free_after_decrement:
  assumes "1 < mc ! f"
  shows "find_free nf (mc[f := mc ! f - 1]) i = find_free nf mc i"
proof (rule find_free_zero_pattern, intro allI impI)
  fix k assume "k < nf"
  show "((mc[f := mc ! f - 1]) ! k = 0) = (mc ! k = 0)"
  proof (cases "k = f \<and> f < length mc")
    case True
    with assms u32_pred_nonzero [OF assms] show ?thesis by auto
  next
    case False
    then show ?thesis by (cases "f < length mc") (auto simp: nth_list_update list_update_beyond)
  qed
qed

lemma wf_state_entry:
  assumes "wf_config cfg" and "wf_state cfg s"
    and "vpn < NR_PTES_PER_PAGE cfg * NR_PTES_PER_PAGE cfg"
    and "pte_at cfg (ptbr s) vpn = Some e"
  shows "\<exists>dir. ptbr s ! (vpn div NR_PTES_PER_PAGE cfg) = Some dir \<and>
               e = dir ! (vpn mod NR_PTES_PER_PAGE cfg) \<and>
               length dir = NR_PTES_PER_PAGE cfg \<and>
               length (ptbr s) = NR_PTES_PER_PAGE cfg \<and>
               length (mapcounts s) = NR_PAGEFRAMES cfg \<and>
               vpn div NR_PTES_PER_PAGE cfg < NR_PTES_PER_PAGE cfg \<and>
               vpn mod NR_PTES_PER_PAGE cfg < NR_PTES_PER_PAGE cfg \<and>
               wf_pte cfg e"
proof -
  let ?i = "vpn div NR_PTES_PER_PAGE cfg" and ?j = "vpn mod NR_PTES_PER_PAGE cfg"
  from assms(3) have i: "?i < NR_PTES_PER_PAGE cfg" by (rule outer_index_bound)
  from assms(1) have j: "?j < NR_PTES_PER_PAGE cfg" by (simp add: wf_config_def)
  from assms(4) obtain dir where dir: "ptbr s ! ?i = Some dir" and e: "e = dir ! ?j"
    using pte_at_SomeD by blast
  from assms(2) have pt: "wf_pagetable cfg (ptbr s)"
    and mc: "length (mapcounts s) = NR_PAGEFRAMES cfg" by (simp_all add: wf_state_def)
  from pt have len_pt: "length (ptbr s) = NR_PTES_PER_PAGE cfg" by (simp add: wf_pagetable_def)
  from wf_pagetable_dir [OF pt i dir]
  have len_dir: "length dir = NR_PTES_PER_PAGE cfg" and all: "list_all (wf_pte cfg) dir"
    by simp_all
  from all j len_dir e have "wf_pte cfg e" by (simp add: list_all_length)
  with dir e len_dir len_pt mc i j show ?thesis by blast
qed

lemma write_faults_iff:
  "pte_at cfg (ptbr s) vpn = Some e \<Longrightarrow> write_faults cfg s vpn = (\<not> valid e \<or> \<not> writable e)"
  by (simp add: write_faults_def)



lemma length_malloc_directory [simp]:
  "length (malloc_directory cfg h i) = NR_PTES_PER_PAGE cfg"
  by (simp add: malloc_directory_def)

lemma nth_malloc_directory [simp]:
  "j < NR_PTES_PER_PAGE cfg \<Longrightarrow> malloc_directory cfg h i ! j = fresh_pte h i j"
  by (simp add: malloc_directory_def)

lemma wf_pagetable_sized: "wf_pagetable cfg pt \<Longrightarrow> sized_pagetable cfg pt"
  by (simp add: wf_pagetable_def sized_pagetable_def wf_directory_def sized_directory_def
      list_all_length split: option.splits)

lemma wf_state_sized: "wf_state cfg s \<Longrightarrow> sized_state cfg s"
  by (simp add: wf_state_def sized_state_def wf_pagetable_sized)

lemma sized_pagetable_dir:
  assumes "sized_pagetable cfg pt" and "i < NR_PTES_PER_PAGE cfg" and "pt ! i = Some dir"
  shows "length dir = NR_PTES_PER_PAGE cfg"
proof -
  from assms(1,2) have "sized_directory cfg (pt ! i)"
    by (simp add: sized_pagetable_def list_all_length)
  with assms(3) show ?thesis by (simp add: sized_directory_def)
qed

lemma blank_heap_slot:
  "blank_heap cfg h \<Longrightarrow> i < NR_PTES_PER_PAGE cfg \<Longrightarrow> fresh_slot h i = None"
  by (simp add: blank_heap_def list_all_length)

lemma blank_heap_pte:
  "blank_heap cfg h \<Longrightarrow> i < NR_PTES_PER_PAGE cfg \<Longrightarrow> j < NR_PTES_PER_PAGE cfg \<Longrightarrow>
   \<not> valid (fresh_pte h i j)"
  by (simp add: blank_heap_def list_all_length)

lemma blank_heap_directory:
  assumes "blank_heap cfg h" and "i < NR_PTES_PER_PAGE cfg"
  shows "list_all (wf_pte cfg) (malloc_directory cfg h i)"
    and "dir_refs f (Some (malloc_directory cfg h i)) = 0"
    and "dir_valid (Some (malloc_directory cfg h i)) = 0"
proof -
  have inv: "\<forall>e \<in> set (malloc_directory cfg h i). \<not> valid e"
    using blank_heap_pte [OF assms] by (auto simp add: malloc_directory_def)
  from inv show "list_all (wf_pte cfg) (malloc_directory cfg h i)"
    by (simp add: list_all_iff wf_pte_def)
  from inv have "map (refers f) (malloc_directory cfg h i) =
                 map (\<lambda>e. 0) (malloc_directory cfg h i)"
    by (simp add: refers_def)
  then show "dir_refs f (Some (malloc_directory cfg h i)) = 0"
    by (simp add: dir_refs_def)
  from inv have "filter valid (malloc_directory cfg h i) = []"
    by (simp add: filter_empty_conv)
  then show "dir_valid (Some (malloc_directory cfg h i)) = 0"
    by (simp add: dir_valid_def)
qed

lemma sized_state_entry:
  assumes "wf_config cfg" and "sized_state cfg s"
    and "vpn < NR_PTES_PER_PAGE cfg * NR_PTES_PER_PAGE cfg"
    and "pte_at cfg (ptbr s) vpn = Some e"
  shows "\<exists>dir. ptbr s ! (vpn div NR_PTES_PER_PAGE cfg) = Some dir \<and>
               e = dir ! (vpn mod NR_PTES_PER_PAGE cfg) \<and>
               length dir = NR_PTES_PER_PAGE cfg \<and>
               length (ptbr s) = NR_PTES_PER_PAGE cfg \<and>
               length (mapcounts s) = NR_PAGEFRAMES cfg \<and>
               vpn div NR_PTES_PER_PAGE cfg < NR_PTES_PER_PAGE cfg \<and>
               vpn mod NR_PTES_PER_PAGE cfg < NR_PTES_PER_PAGE cfg"
proof -
  let ?i = "vpn div NR_PTES_PER_PAGE cfg" and ?j = "vpn mod NR_PTES_PER_PAGE cfg"
  from assms(3) have i: "?i < NR_PTES_PER_PAGE cfg" by (rule outer_index_bound)
  from assms(1) have j: "?j < NR_PTES_PER_PAGE cfg" by (simp add: wf_config_def)
  from assms(4) obtain dir where dir: "ptbr s ! ?i = Some dir" and e: "e = dir ! ?j"
    using pte_at_SomeD by blast
  from assms(2) have pt: "sized_pagetable cfg (ptbr s)"
    and mc: "length (mapcounts s) = NR_PAGEFRAMES cfg" by (simp_all add: sized_state_def)
  from pt have len_pt: "length (ptbr s) = NR_PTES_PER_PAGE cfg"
    by (simp add: sized_pagetable_def)
  from sized_pagetable_dir [OF pt i dir] have len_dir: "length dir = NR_PTES_PER_PAGE cfg" .
  with dir e len_pt mc i j show ?thesis by blast
qed

section \<open>One store to one entry\<close>

text \<open>
  Each of \<open>alloc_page\<close>, \<open>free_page\<close> and \<open>handle_page_fault\<close> changes the page table in
  one entry.  What that does to well-formedness and to the number of entries on a frame is
  proved once, for \<open>set_pte\<close>, and each function is shown to end in such a store.
\<close>

lemma mapcounts_set_pte [simp]: "mapcounts (set_pte cfg h vpn e s) = mapcounts s"
  by (simp add: set_pte_def Let_def)

lemma processes_set_pte [simp]: "processes (set_pte cfg h vpn e s) = processes s"
  by (simp add: set_pte_def Let_def)

lemma total_refs_mapcounts_update [simp]: "total_refs f (s\<lparr>mapcounts := mc\<rparr>) = total_refs f s"
  by (simp add: total_refs_def)

lemma sized_pagetable_lengths:
  assumes "wf_config cfg" and "sized_pagetable cfg pt"
    and "vpn < NR_PTES_PER_PAGE cfg * NR_PTES_PER_PAGE cfg"
  shows "vpn div NR_PTES_PER_PAGE cfg < length pt \<and>
         vpn div NR_PTES_PER_PAGE cfg < NR_PTES_PER_PAGE cfg \<and>
         vpn mod NR_PTES_PER_PAGE cfg < NR_PTES_PER_PAGE cfg \<and>
         (\<forall>d. pt ! (vpn div NR_PTES_PER_PAGE cfg) = Some d \<longrightarrow>
              length d = NR_PTES_PER_PAGE cfg)"
proof -
  from assms(3) have i: "vpn div NR_PTES_PER_PAGE cfg < NR_PTES_PER_PAGE cfg"
    by (rule outer_index_bound)
  moreover from assms(1) have "vpn mod NR_PTES_PER_PAGE cfg < NR_PTES_PER_PAGE cfg"
    by (simp add: wf_config_def)
  moreover from assms(2) have "length pt = NR_PTES_PER_PAGE cfg"
    by (simp add: sized_pagetable_def)
  ultimately show ?thesis using sized_pagetable_dir [OF assms(2) i] by simp
qed

lemma pte_at_set_pte:
  assumes "wf_config cfg" and "sized_pagetable cfg (ptbr s)"
    and "vpn < NR_PTES_PER_PAGE cfg * NR_PTES_PER_PAGE cfg"
  shows "pte_at cfg (ptbr (set_pte cfg h vpn e s)) vpn = Some e"
  using sized_pagetable_lengths [OF assms]
  by (cases "ptbr s ! (vpn div NR_PTES_PER_PAGE cfg)")
     (simp_all add: set_pte_def Let_def pte_at_update)

lemma sized_pagetable_set_pte:
  assumes "wf_config cfg" and "sized_pagetable cfg (ptbr s)"
    and "vpn < NR_PTES_PER_PAGE cfg * NR_PTES_PER_PAGE cfg"
  shows "sized_pagetable cfg (ptbr (set_pte cfg h vpn e s))"
proof -
  let ?i = "vpn div NR_PTES_PER_PAGE cfg" and ?j = "vpn mod NR_PTES_PER_PAGE cfg"
  let ?dir = "case ptbr s ! ?i of None \<Rightarrow> malloc_directory cfg h ?i | Some d \<Rightarrow> d"
  note b = sized_pagetable_lengths [OF assms(1-3)]
  have "length ?dir = NR_PTES_PER_PAGE cfg"
    using b by (cases "ptbr s ! ?i") simp_all
  then have d: "sized_directory cfg (Some (?dir[?j := e]))"
    by (simp add: sized_directory_def)
  have "list_all (sized_directory cfg) ((ptbr s)[?i := Some (?dir[?j := e])])"
    unfolding list_all_length
  proof (intro allI impI)
    fix k assume k: "k < length ((ptbr s)[?i := Some (?dir[?j := e])])"
    with assms(2) have "sized_directory cfg (ptbr s ! k)"
      by (simp add: sized_pagetable_def list_all_length)
    with d k show "sized_directory cfg ((ptbr s)[?i := Some (?dir[?j := e])] ! k)"
      by (cases "k = ?i") simp_all
  qed
  with assms(2) show ?thesis
    by (simp add: set_pte_def Let_def sized_pagetable_def)
qed

text \<open>
  A store that makes the directory takes it from \<open>malloc\<close>: the other entries of the new
  directory are what the block held, so the next two facts ask for an outer slot that is in
  use or for a heap without stale mappings.
\<close>

lemma wf_pagetable_set_pte:
  assumes "wf_config cfg" and "wf_pagetable cfg (ptbr s)"
    and "vpn < NR_PTES_PER_PAGE cfg * NR_PTES_PER_PAGE cfg" and "wf_pte cfg e"
    and fresh: "ptbr s ! (vpn div NR_PTES_PER_PAGE cfg) = None \<Longrightarrow> blank_heap cfg h"
  shows "wf_pagetable cfg (ptbr (set_pte cfg h vpn e s))"
proof -
  let ?i = "vpn div NR_PTES_PER_PAGE cfg" and ?j = "vpn mod NR_PTES_PER_PAGE cfg"
  let ?dir = "case ptbr s ! ?i of None \<Rightarrow> malloc_directory cfg h ?i | Some d \<Rightarrow> d"
  note b = sized_pagetable_lengths [OF assms(1) wf_pagetable_sized [OF assms(2)] assms(3)]
  from b have i: "?i < NR_PTES_PER_PAGE cfg" by simp
  have "length ?dir = NR_PTES_PER_PAGE cfg \<and> list_all (wf_pte cfg) ?dir"
  proof (cases "ptbr s ! ?i")
    case None
    with blank_heap_directory(1) [OF fresh i] show ?thesis by simp
  next
    case (Some d)
    with wf_pagetable_dir [OF assms(2) i] show ?thesis by simp
  qed
  with assms(4) have d: "wf_directory cfg (Some (?dir[?j := e]))"
    by (auto simp add: wf_directory_def list_all_length nth_list_update)
  have "list_all (wf_directory cfg) ((ptbr s)[?i := Some (?dir[?j := e])])"
    unfolding list_all_length
  proof (intro allI impI)
    fix k assume k: "k < length ((ptbr s)[?i := Some (?dir[?j := e])])"
    with assms(2) have "wf_directory cfg (ptbr s ! k)"
      by (simp add: wf_pagetable_def list_all_length)
    with d k show "wf_directory cfg ((ptbr s)[?i := Some (?dir[?j := e])] ! k)"
      by (cases "k = ?i") simp_all
  qed
  with assms(2) show ?thesis
    by (simp add: set_pte_def Let_def wf_pagetable_def)
qed

lemma wf_state_set_pte:
  assumes "wf_config cfg" and "wf_state cfg s"
    and "vpn < NR_PTES_PER_PAGE cfg * NR_PTES_PER_PAGE cfg" and "wf_pte cfg e"
    and fresh: "ptbr s ! (vpn div NR_PTES_PER_PAGE cfg) = None \<Longrightarrow> blank_heap cfg h"
  shows "wf_state cfg (set_pte cfg h vpn e s)"
proof -
  from assms(2) have "wf_pagetable cfg (ptbr s)" by (simp add: wf_state_def)
  from wf_pagetable_set_pte [OF assms(1) this assms(3,4) fresh]
  have "wf_pagetable cfg (ptbr (set_pte cfg h vpn e s))" by simp
  with assms(2) show ?thesis by (simp add: wf_state_def)
qed

lemma wf_state_mapcounts_update:
  "wf_state cfg s \<Longrightarrow> length mc = NR_PAGEFRAMES cfg \<Longrightarrow> wf_state cfg (s\<lparr>mapcounts := mc\<rparr>)"
  by (simp add: wf_state_def)

lemma sum_list_map_update:
  fixes g :: "'a \<Rightarrow> nat"
  shows "k < length xs \<Longrightarrow>
         sum_list (map g (xs[k := y])) + g (xs ! k) = sum_list (map g xs) + g y"
proof (induction xs arbitrary: k)
  case Nil
  then show ?case by simp
next
  case (Cons x xs)
  show ?case
  proof (cases k)
    case 0
    then show ?thesis by simp
  next
    case (Suc m)
    with Cons.prems have "m < length xs" by simp
    from Cons.IH [OF this] Suc show ?thesis by simp
  qed
qed

lemma pt_refs_set_pte:
  assumes "wf_config cfg" and "sized_pagetable cfg (ptbr s)"
    and "vpn < NR_PTES_PER_PAGE cfg * NR_PTES_PER_PAGE cfg"
    and fresh: "ptbr s ! (vpn div NR_PTES_PER_PAGE cfg) = None \<Longrightarrow> blank_heap cfg h"
  shows "pt_refs f (ptbr (set_pte cfg h vpn e s)) + refers f (entry_of cfg h (ptbr s) vpn) =
         pt_refs f (ptbr s) + refers f e"
proof -
  let ?i = "vpn div NR_PTES_PER_PAGE cfg" and ?j = "vpn mod NR_PTES_PER_PAGE cfg"
  let ?dir = "case ptbr s ! ?i of None \<Rightarrow> malloc_directory cfg h ?i | Some d \<Rightarrow> d"
  note b = sized_pagetable_lengths [OF assms(1-3)]
  from b have i: "?i < NR_PTES_PER_PAGE cfg" by simp
  have "?j < length ?dir \<and> entry_of cfg h (ptbr s) vpn = ?dir ! ?j \<and>
        dir_refs f (Some ?dir) = dir_refs f (ptbr s ! ?i)"
  proof (cases "ptbr s ! ?i")
    case None
    with b blank_heap_directory(2) [OF fresh i, of f] show ?thesis
      by (simp add: entry_of_def pte_at_def) (simp add: dir_refs_def)
  next
    case (Some d)
    with b show ?thesis by (simp add: entry_of_def pte_at_def)
  qed
  then have len: "?j < length ?dir" and old: "entry_of cfg h (ptbr s) vpn = ?dir ! ?j"
    and same: "dir_refs f (Some ?dir) = dir_refs f (ptbr s ! ?i)"
    by simp_all
  have inner: "dir_refs f (Some (?dir[?j := e])) + refers f (?dir ! ?j) =
               dir_refs f (Some ?dir) + refers f e"
    using sum_list_map_update [OF len, of "refers f" e] by (simp add: dir_refs_def)
  have outer: "pt_refs f ((ptbr s)[?i := Some (?dir[?j := e])]) + dir_refs f (ptbr s ! ?i) =
               pt_refs f (ptbr s) + dir_refs f (Some (?dir[?j := e]))"
    using sum_list_map_update [of ?i "ptbr s" "dir_refs f" "Some (?dir[?j := e])"] b
    by (simp add: pt_refs_def)
  from inner outer same old show ?thesis
    by (simp add: set_pte_def Let_def)
qed

lemma share_inv_iff:
  "share_inv cfg s \<longleftrightarrow> (\<forall>f<NR_PAGEFRAMES cfg. unat (mapcounts s ! f) = total_refs f s)"
  by (simp add: share_inv_def list_all_length)

lemma share_inv_set_pte:
  assumes "wf_config cfg" and "wf_state cfg s" and "share_inv cfg s"
    and "vpn < NR_PTES_PER_PAGE cfg * NR_PTES_PER_PAGE cfg"
    and "\<forall>f<NR_PAGEFRAMES cfg.
           unat (mc' ! f) + refers f (entry_of cfg h (ptbr s) vpn) =
           unat (mapcounts s ! f) + refers f e"
    and fresh: "ptbr s ! (vpn div NR_PTES_PER_PAGE cfg) = None \<Longrightarrow> blank_heap cfg h"
  shows "share_inv cfg (set_pte cfg h vpn e (s\<lparr>mapcounts := mc'\<rparr>))"
  unfolding share_inv_iff
proof (intro allI impI)
  fix f assume f: "f < NR_PAGEFRAMES cfg"
  let ?s1 = "s\<lparr>mapcounts := mc'\<rparr>"
  have wf1: "sized_pagetable cfg (ptbr ?s1)"
    using assms(2) by (simp add: wf_state_def wf_pagetable_sized)
  have fresh1: "ptbr ?s1 ! (vpn div NR_PTES_PER_PAGE cfg) = None \<Longrightarrow> blank_heap cfg h"
    using fresh by simp
  from pt_refs_set_pte [OF assms(1) wf1 assms(4) fresh1, where f = f and e = e]
  have "total_refs f (set_pte cfg h vpn e ?s1) + refers f (entry_of cfg h (ptbr s) vpn) =
        total_refs f s + refers f e"
    by (simp add: total_refs_def)
  moreover from assms(3) f have "unat (mapcounts s ! f) = total_refs f s"
    by (simp add: share_inv_iff)
  moreover from assms(5) f have
    "unat (mc' ! f) + refers f (entry_of cfg h (ptbr s) vpn) = unat (mapcounts s ! f) + refers f e"
    by simp
  ultimately show "unat (mapcounts (set_pte cfg h vpn e ?s1) ! f) =
                   total_refs f (set_pte cfg h vpn e ?s1)"
    by simp
qed

lemma entry_of_present: "pte_at cfg pt vpn = Some e \<Longrightarrow> entry_of cfg h pt vpn = e"
  by (simp add: entry_of_def)

lemma alloc_page_run:
  assumes "wf_config cfg" and "vpn < NR_PTES_PER_PAGE cfg * NR_PTES_PER_PAGE cfg"
    and "find_free (NR_PAGEFRAMES cfg) (mapcounts s) 0 = g" and "g < NR_PAGEFRAMES cfg"
  shows "alloc_page cfg h vpn rw s =
           Inr (word_of_nat g,
                set_pte cfg h vpn
                  (if rw = 2 \<or> rw = 3
                   then (entry_of cfg h (ptbr s) vpn)\<lparr>valid := True, pfn := g, writable := True\<rparr>
                   else (entry_of cfg h (ptbr s) vpn)\<lparr>valid := True, pfn := g\<rparr>)
                  (s\<lparr>mapcounts := (mapcounts s)[g := mapcounts s ! g + 1]\<rparr>))"
proof -
  let ?i = "vpn div NR_PTES_PER_PAGE cfg" and ?j = "vpn mod NR_PTES_PER_PAGE cfg"
  from assms(2) have i: "?i < NR_PTES_PER_PAGE cfg" by (rule outer_index_bound)
  from assms(1) have j: "?j < NR_PTES_PER_PAGE cfg" by (simp add: wf_config_def)
  show ?thesis
  proof (cases "ptbr s ! ?i")
    case None
    with i j assms(3,4) show ?thesis
      by (simp add: alloc_page_def set_pte_def Let_def entry_of_def pte_at_def)
  next
    case (Some d)
    with i j assms(3,4) show ?thesis
      by (simp add: alloc_page_def set_pte_def Let_def entry_of_def pte_at_def)
  qed
qed

lemma alloc_page_full:
  assumes "NR_PAGEFRAMES cfg \<le> find_free (NR_PAGEFRAMES cfg) (mapcounts s) 0"
  shows "alloc_page cfg h vpn rw s = Inr (- 1, s)"
  using assms by (simp add: alloc_page_def Let_def)

lemma free_page_run:
  assumes "vpn < NR_PTES_PER_PAGE cfg * NR_PTES_PER_PAGE cfg"
    and "pte_at cfg (ptbr s) vpn = Some e" and "pfn e < NR_PAGEFRAMES cfg"
  shows "free_page cfg vpn s =
           Inr (set_pte cfg h vpn (e\<lparr>valid := False, writable := False, pfn := 0\<rparr>)
                  (s\<lparr>mapcounts := (mapcounts s)[pfn e := mapcounts s ! pfn e - 1]\<rparr>))"
proof -
  from assms(1) have i: "vpn div NR_PTES_PER_PAGE cfg < NR_PTES_PER_PAGE cfg"
    by (rule outer_index_bound)
  from pte_at_SomeD [OF assms(2)] i assms(3) show ?thesis
    by (auto simp add: free_page_def set_pte_def Let_def)
qed

lemma fault_last_sharer_run:
  assumes "vpn < NR_PTES_PER_PAGE cfg * NR_PTES_PER_PAGE cfg"
    and "pte_at cfg (ptbr s) vpn = Some e" and "valid e" and "private_flag e"
    and "pfn e < NR_PAGEFRAMES cfg" and "mapcounts s ! pfn e = 1"
  shows "handle_page_fault cfg h vpn rw s =
           Inr (Some True, set_pte cfg h vpn (e\<lparr>writable := True\<rparr>) s)"
proof -
  from assms(1) have i: "vpn div NR_PTES_PER_PAGE cfg < NR_PTES_PER_PAGE cfg"
    by (rule outer_index_bound)
  from pte_at_SomeD [OF assms(2)] i assms(3-6) show ?thesis
    by (auto simp add: handle_page_fault_def set_pte_def Let_def)
qed

lemma fault_shared_run:
  assumes "wf_config cfg" and "vpn < NR_PTES_PER_PAGE cfg * NR_PTES_PER_PAGE cfg"
    and "pte_at cfg (ptbr s) vpn = Some e" and "valid e" and "private_flag e"
    and "pfn e < NR_PAGEFRAMES cfg" and "1 < mapcounts s ! pfn e"
    and "find_free (NR_PAGEFRAMES cfg) (mapcounts s) 0 = g" and "g < NR_PAGEFRAMES cfg"
  shows "handle_page_fault cfg h vpn rw s =
           Inr (Some True,
                set_pte cfg h vpn (e\<lparr>valid := True, pfn := g, writable := True\<rparr>)
                  (s\<lparr>mapcounts := (mapcounts s)[pfn e := mapcounts s ! pfn e - 1, g := 1]\<rparr>))
         \<and> mapcounts s ! g = 0 \<and> g \<noteq> pfn e"
proof -
  let ?mc = "mapcounts s" and ?f = "pfn e"
  let ?s1 = "s\<lparr>mapcounts := ?mc[?f := ?mc ! ?f - 1]\<rparr>"
  from assms(2) have i: "vpn div NR_PTES_PER_PAGE cfg < NR_PTES_PER_PAGE cfg"
    by (rule outer_index_bound)
  from assms(8,9) have g0: "?mc ! g = 0" using find_free_is_free by blast
  with assms(7) have gf: "g \<noteq> ?f" by auto
  have scan: "find_free (NR_PAGEFRAMES cfg) (mapcounts ?s1) 0 = g"
    using assms(7,8) by (simp add: find_free_after_decrement)
  have e1: "entry_of cfg h (ptbr s) vpn = e" using assms(3) by (simp add: entry_of_present)
  have "alloc_page cfg h vpn RW_WRITE ?s1 =
          Inr (word_of_nat g,
               set_pte cfg h vpn (e\<lparr>valid := True, pfn := g, writable := True\<rparr>)
                 (?s1\<lparr>mapcounts := (mapcounts ?s1)[g := mapcounts ?s1 ! g + 1]\<rparr>))"
    using alloc_page_run [OF assms(1,2) scan assms(9), where rw = RW_WRITE and h = h]
    by (simp add: RW_WRITE_def e1)
  moreover have "(mapcounts ?s1)[g := mapcounts ?s1 ! g + 1] = ?mc[?f := ?mc ! ?f - 1, g := 1]"
    using gf g0 by simp
  ultimately have alloc: "alloc_page cfg h vpn RW_WRITE ?s1 =
          Inr (word_of_nat g,
               set_pte cfg h vpn (e\<lparr>valid := True, pfn := g, writable := True\<rparr>)
                 (s\<lparr>mapcounts := ?mc[?f := ?mc ! ?f - 1, g := 1]\<rparr>))"
    by simp
  from pte_at_SomeD [OF assms(3)] i assms(4-7) alloc
  have "handle_page_fault cfg h vpn rw s =
           Inr (Some True,
                set_pte cfg h vpn (e\<lparr>valid := True, pfn := g, writable := True\<rparr>)
                  (s\<lparr>mapcounts := ?mc[?f := ?mc ! ?f - 1, g := 1]\<rparr>))"
    by (auto simp add: handle_page_fault_def Let_def)
  with g0 gf show ?thesis by simp
qed

lemma fault_unchanged_run:
  assumes "vpn < NR_PTES_PER_PAGE cfg * NR_PTES_PER_PAGE cfg"
    and "pte_at cfg (ptbr s) vpn = Some e"
    and "\<not> (valid e \<and> private_flag e) \<or> (pfn e < NR_PAGEFRAMES cfg \<and> mapcounts s ! pfn e = 0)"
  shows "\<exists>r. handle_page_fault cfg h vpn rw s = Inr (r, s)"
proof -
  from assms(1) have i: "vpn div NR_PTES_PER_PAGE cfg < NR_PTES_PER_PAGE cfg"
    by (rule outer_index_bound)
  from pte_at_SomeD [OF assms(2)] i assms(3) show ?thesis
    by (auto simp add: handle_page_fault_def Let_def)
qed

lemma cow_break_shared:
  assumes "wf_config cfg" and "sized_state cfg s"
    and "vpn < NR_PTES_PER_PAGE cfg * NR_PTES_PER_PAGE cfg"
    and "pte_at cfg (ptbr s) vpn = Some e" and "valid e" and "private_flag e"
    and "1 < mapcounts s ! pfn e" and "\<exists>k<NR_PAGEFRAMES cfg. mapcounts s ! k = 0"
    and f: "pfn e < NR_PAGEFRAMES cfg"
  shows "\<exists>s' g. handle_page_fault cfg h vpn rw s = Inr (Some True, s') \<and>
              g = find_free (NR_PAGEFRAMES cfg) (mapcounts s) 0 \<and>
              g < NR_PAGEFRAMES cfg \<and> mapcounts s ! g = 0 \<and> g \<noteq> pfn e \<and>
              pte_at cfg (ptbr s') vpn =
                Some \<lparr>valid = True, writable = True, pfn = g, private_flag = True\<rparr> \<and>
              mapcounts s' = (mapcounts s)[pfn e := mapcounts s ! pfn e - 1, g := 1] \<and>
              processes s' = processes s \<and>
              \<not> write_faults cfg s' vpn"
proof -
  let ?nf = "NR_PAGEFRAMES cfg" and ?mc = "mapcounts s" and ?f = "pfn e"
  let ?g = "find_free ?nf ?mc 0"
  let ?e' = "e\<lparr>valid := True, pfn := ?g, writable := True\<rparr>"
  let ?s' = "set_pte cfg h vpn ?e' (s\<lparr>mapcounts := ?mc[?f := ?mc ! ?f - 1, ?g := 1]\<rparr>)"
  from assms(8) obtain k where "k < ?nf" and "?mc ! k = 0" by blast
  then have g: "?g < ?nf" using find_free_finds [of 0 k ?nf ?mc] by simp
  from fault_shared_run [OF assms(1,3,4,5,6) f assms(7) refl g, where rw = rw and h = h]
  have run: "handle_page_fault cfg h vpn rw s = Inr (Some True, ?s')"
    and g0: "?mc ! ?g = 0" and gf: "?g \<noteq> ?f"
    by simp_all
  from assms(2)
  have "sized_pagetable cfg (ptbr (s\<lparr>mapcounts := ?mc[?f := ?mc ! ?f - 1, ?g := 1]\<rparr>))"
    by (simp add: sized_state_def)
  from pte_at_set_pte [OF assms(1) this assms(3)]
  have p0: "pte_at cfg (ptbr ?s') vpn = Some ?e'" .
  have eq: "?e' = \<lparr>valid = True, writable = True, pfn = ?g, private_flag = True\<rparr>"
    using assms(6) by simp
  have p: "pte_at cfg (ptbr ?s') vpn =
             Some \<lparr>valid = True, writable = True, pfn = ?g, private_flag = True\<rparr>"
    unfolding eq [symmetric] by (fact p0)
  have m: "mapcounts ?s' = ?mc[?f := ?mc ! ?f - 1, ?g := 1]"
    and q: "processes ?s' = processes s" by simp_all
  from p have w: "\<not> write_faults cfg ?s' vpn" by (simp add: write_faults_iff)
  from run g g0 gf p m q w show ?thesis by blast
qed

lemma cow_break_last_sharer:
  assumes "wf_config cfg" and "sized_state cfg s"
    and "vpn < NR_PTES_PER_PAGE cfg * NR_PTES_PER_PAGE cfg"
    and "pte_at cfg (ptbr s) vpn = Some e" and "valid e" and "private_flag e"
    and "mapcounts s ! pfn e = 1"
    and f: "pfn e < NR_PAGEFRAMES cfg"
  shows "\<exists>s'. handle_page_fault cfg h vpn rw s = Inr (Some True, s') \<and>
              pte_at cfg (ptbr s') vpn =
                Some \<lparr>valid = True, writable = True, pfn = pfn e, private_flag = True\<rparr> \<and>
              mapcounts s' = mapcounts s \<and>
              processes s' = processes s \<and>
              \<not> write_faults cfg s' vpn"
proof -
  let ?e' = "e\<lparr>writable := True\<rparr>"
  let ?s' = "set_pte cfg h vpn ?e' s"
  have run: "handle_page_fault cfg h vpn rw s = Inr (Some True, ?s')"
    by (rule fault_last_sharer_run [OF assms(3,4,5,6) f assms(7)])
  from assms(2) have "sized_pagetable cfg (ptbr s)" by (simp add: sized_state_def)
  from pte_at_set_pte [OF assms(1) this assms(3)]
  have p0: "pte_at cfg (ptbr ?s') vpn = Some ?e'" .
  have eq: "?e' = \<lparr>valid = True, writable = True, pfn = pfn e, private_flag = True\<rparr>"
    using assms(5,6) by simp
  have p: "pte_at cfg (ptbr ?s') vpn =
             Some \<lparr>valid = True, writable = True, pfn = pfn e, private_flag = True\<rparr>"
    unfolding eq [symmetric] by (fact p0)
  from p have w: "\<not> write_faults cfg ?s' vpn" by (simp add: write_faults_iff)
  have m: "mapcounts ?s' = mapcounts s" and q: "processes ?s' = processes s" by simp_all
  from run p m q w show ?thesis by blast
qed

section \<open>alloc_page: the frame it takes and the writable bit\<close>

text \<open>
  Claim C7, as far as the code goes.  In a well-formed state with a free frame,
  \<open>alloc_page\<close> returns the smallest frame number whose share count is 0, leaves the page
  under a directory with a valid entry on that frame, and raises the frame's count from
  0 to 1.  It sets \<open>writable\<close> when \<open>rw\<close> is 2 or 3; it has no \<open>else\<close>, so under any other
  \<open>rw\<close> the bit stays what it was, where the claim has it set exactly when the access
  includes write permission.
\<close>

theorem alloc_page_lowest_free:
  assumes "wf_config cfg" and "wf_state cfg s"
    and "vpn < NR_PTES_PER_PAGE cfg * NR_PTES_PER_PAGE cfg"
    and "\<exists>k<NR_PAGEFRAMES cfg. mapcounts s ! k = 0"
  shows "\<exists>g s'. alloc_page cfg h vpn rw s = Inr (word_of_nat g, s') \<and>
           g < NR_PAGEFRAMES cfg \<and> mapcounts s ! g = 0 \<and> (\<forall>k<g. mapcounts s ! k \<noteq> 0) \<and>
           pte_at cfg (ptbr s') vpn =
             Some ((entry_of cfg h (ptbr s) vpn)
                     \<lparr>valid := True, pfn := g,
                      writable := (rw = 2 \<or> rw = 3) \<or> writable (entry_of cfg h (ptbr s) vpn)\<rparr>) \<and>
           mapcounts s' = (mapcounts s)[g := 1] \<and>
           processes s' = processes s"
proof -
  let ?nf = "NR_PAGEFRAMES cfg" and ?mc = "mapcounts s"
  let ?g = "find_free ?nf ?mc 0"
  let ?old = "entry_of cfg h (ptbr s) vpn"
  let ?e = "if rw = 2 \<or> rw = 3 then ?old\<lparr>valid := True, pfn := ?g, writable := True\<rparr>
            else ?old\<lparr>valid := True, pfn := ?g\<rparr>"
  let ?s' = "set_pte cfg h vpn ?e (s\<lparr>mapcounts := ?mc[?g := ?mc ! ?g + 1]\<rparr>)"
  from assms(4) obtain k where "k < ?nf" and "?mc ! k = 0" by blast
  then have g: "?g < ?nf" using find_free_finds [of 0 k ?nf ?mc] by simp
  then have g0: "?mc ! ?g = 0" by (rule find_free_is_free)
  have least: "\<forall>k<?g. ?mc ! k \<noteq> 0" using find_free_least [of 0 _ ?nf ?mc] by simp
  have run: "alloc_page cfg h vpn rw s = Inr (word_of_nat ?g, ?s')"
    by (rule alloc_page_run [OF assms(1,3) refl g])
  from assms(2) have "sized_pagetable cfg (ptbr (s\<lparr>mapcounts := ?mc[?g := ?mc ! ?g + 1]\<rparr>))"
    by (simp add: wf_state_def wf_pagetable_sized)
  from pte_at_set_pte [OF assms(1) this assms(3)]
  have p0: "pte_at cfg (ptbr ?s') vpn = Some ?e" .
  have eq: "?e = ?old\<lparr>valid := True, pfn := ?g,
                       writable := (rw = 2 \<or> rw = 3) \<or> writable ?old\<rparr>"
    by simp
  have p: "pte_at cfg (ptbr ?s') vpn =
             Some (?old\<lparr>valid := True, pfn := ?g,
                         writable := (rw = 2 \<or> rw = 3) \<or> writable ?old\<rparr>)"
    unfolding eq [symmetric] by (fact p0)
  have m: "mapcounts ?s' = ?mc[?g := 1]" using g0 by simp
  have q: "processes ?s' = processes s" by simp
  from run g g0 least p m q show ?thesis by blast
qed

text \<open>
  Page 0 of \<open>one_page\<close> is mapped for writing; mapping it again with \<open>RW_READ\<close> takes
  frame 1 and leaves the page writable.
\<close>

theorem alloc_page_read_keeps_writable:
  "wf_config cfg2 \<and> wf_state cfg2 one_page \<and>
   entry_of cfg2 zero_heap (ptbr one_page) 0 = rw_pte 0 \<and>
   (\<exists>s'. alloc_page cfg2 zero_heap 0 RW_READ one_page = Inr (1, s') \<and>
         pte_at cfg2 (ptbr s') 0 = Some (rw_pte 1) \<and> writable (rw_pte 1) \<and>
         mapcounts s' = [1, 1])"
proof -
  have 1: "wf_config cfg2" by (simp add: cfg2_def wf_config_def)
  have 2: "wf_state cfg2 one_page" by (simp add: ex_defs wf_defs)
  have 3: "(0::nat) < NR_PTES_PER_PAGE cfg2 * NR_PTES_PER_PAGE cfg2" by (simp add: cfg2_def)
  have 4: "\<exists>k<NR_PAGEFRAMES cfg2. mapcounts one_page ! k = 0"
    by (auto simp add: ex_defs intro: exI [of _ 1])
  have 5: "entry_of cfg2 zero_heap (ptbr one_page) 0 = rw_pte 0"
    by (simp add: ex_defs entry_of_def pte_at_def ptbr_def)
  from alloc_page_lowest_free [OF 1 2 3 4, where rw = RW_READ and h = zero_heap]
  obtain g s' where
    run: "alloc_page cfg2 zero_heap 0 RW_READ one_page = Inr (word_of_nat g, s')" and
    g: "g < NR_PAGEFRAMES cfg2" "mapcounts one_page ! g = 0" and
    p: "pte_at cfg2 (ptbr s') 0 =
          Some ((entry_of cfg2 zero_heap (ptbr one_page) 0)
                  \<lparr>valid := True, pfn := g,
                   writable := (RW_READ = 2 \<or> RW_READ = 3) \<or>
                               writable (entry_of cfg2 zero_heap (ptbr one_page) 0)\<rparr>)" and
    m: "mapcounts s' = (mapcounts one_page)[g := 1]"
    by blast
  from g have "g = 1" by (cases "g = 0") (simp_all add: ex_defs)
  with run p m 5 have
    "alloc_page cfg2 zero_heap 0 RW_READ one_page = Inr (1, s') \<and>
     pte_at cfg2 (ptbr s') 0 = Some (rw_pte 1) \<and> writable (rw_pte 1) \<and>
     mapcounts s' = [1, 1]"
    by (simp add: ex_defs RW_READ_def)
  with 1 2 5 show ?thesis by blast
qed

section \<open>free_page: what it clears\<close>

text \<open>
  Claim C9, as the code has it by design.  In a well-formed state, for a page under a
  present directory whose entry names a frame of the table (as every valid entry does),
  \<open>free_page\<close> runs to its end, lowers the share count of the entry's frame by one
  (modulo \<open>2^32\<close>, the counts being unsigned) and sets \<open>valid\<close>, \<open>writable\<close> and \<open>pfn\<close>
  of the entry to zero; the ready queue is untouched.  The function returns no value, so
  nothing tells a valid entry from an invalid one.
\<close>

theorem free_page_clears:
  assumes "wf_config cfg" and "wf_state cfg s"
    and "vpn < NR_PTES_PER_PAGE cfg * NR_PTES_PER_PAGE cfg"
    and "pte_at cfg (ptbr s) vpn = Some e"
    and "pfn e < NR_PAGEFRAMES cfg"
  shows "\<exists>s' e'. free_page cfg vpn s = Inr s' \<and>
           pte_at cfg (ptbr s') vpn = Some e' \<and>
           \<not> valid e' \<and> \<not> writable e' \<and> pfn e' = 0 \<and>
           mapcounts s' = (mapcounts s)[pfn e := mapcounts s ! pfn e - 1] \<and>
           processes s' = processes s"
proof -
  let ?i = "vpn div NR_PTES_PER_PAGE cfg" and ?j = "vpn mod NR_PTES_PER_PAGE cfg"
  from assms(3) have i: "?i < NR_PTES_PER_PAGE cfg" by (rule outer_index_bound)
  from assms(1) have j: "?j < NR_PTES_PER_PAGE cfg" by (simp add: wf_config_def)
  from assms(4) obtain dir where dir: "ptbr s ! ?i = Some dir" and e: "e = dir ! ?j"
    using pte_at_SomeD by blast
  from assms(2) have pt: "wf_pagetable cfg (ptbr s)" by (simp add: wf_state_def)
  then have len_pt: "length (ptbr s) = NR_PTES_PER_PAGE cfg" by (simp add: wf_pagetable_def)
  from wf_pagetable_dir [OF pt i dir] have len_dir: "length dir = NR_PTES_PER_PAGE cfg" by simp
  let ?e' = "e\<lparr>valid := False, writable := False, pfn := 0\<rparr>"
  let ?s' = "set_ptbr ((ptbr s)[?i := Some (dir[?j := ?e'])])
               (s\<lparr>mapcounts := (mapcounts s)[pfn e := mapcounts s ! pfn e - 1]\<rparr>)"
  from i dir e assms(5) have run: "free_page cfg vpn s = Inr ?s'"
    by (simp add: free_page_def Let_def ptbr_def set_ptbr_def)
  have p: "pte_at cfg (ptbr ?s') vpn = Some ?e'"
    using i j len_pt len_dir by (simp add: pte_at_update)
  have v: "\<not> valid ?e'" "\<not> writable ?e'" "pfn ?e' = 0" by simp_all
  have m: "mapcounts ?s' = (mapcounts s)[pfn e := mapcounts s ! pfn e - 1]" by simp
  have q: "processes ?s' = processes s" by simp
  from run p v m q show ?thesis by blast
qed

text \<open>Process 1 of \<open>forked\<close> frees the shared page 0, and frame 0 is left to process 0.\<close>

theorem free_page_clears_witness:
  "wf_config cfg2 \<and> wf_state cfg2 forked \<and> pte_at cfg2 (ptbr forked) 0 = Some (cow_pte 0) \<and>
   (\<exists>s' e'. free_page cfg2 0 forked = Inr s' \<and>
      pte_at cfg2 (ptbr s') 0 = Some e' \<and> \<not> valid e' \<and> \<not> writable e' \<and> pfn e' = 0 \<and>
      mapcounts s' = [1, 0] \<and> processes s' = processes forked)"
proof -
  have 1: "wf_config cfg2" by (simp add: cfg2_def wf_config_def)
  have 2: "wf_state cfg2 forked" by (simp add: ex_defs wf_defs)
  have 3: "(0::nat) < NR_PTES_PER_PAGE cfg2 * NR_PTES_PER_PAGE cfg2" by (simp add: cfg2_def)
  have 4: "pte_at cfg2 (ptbr forked) 0 = Some (cow_pte 0)"
    by (simp add: ex_defs pte_at_def ptbr_def)
  have 5: "pfn (cow_pte 0) < NR_PAGEFRAMES cfg2" by (simp add: cow_pte_def cfg2_def)
  from free_page_clears [OF 1 2 3 4 5] 1 2 4 show ?thesis
    by (simp add: cow_pte_def forked_def)
qed

text \<open>
  Against claim C9 as stated: freeing page 1 of \<open>one_page\<close>, whose entry is invalid,
  returns like any other call, after taking frame 0 away from page 0, which still maps it.
\<close>

theorem free_page_counterexample:
  "pte_at cfg2 (ptbr one_page) 1 = Some zero_pte \<and> \<not> valid zero_pte \<and>
   pte_at cfg2 (ptbr one_page) 0 = Some (rw_pte 0) \<and>
   free_page cfg2 1 one_page =
     Inr \<lparr>processes = [],
          current = \<lparr>pid = 0, pagetable = [Some [rw_pte 0, zero_pte], None]\<rparr>,
          mapcounts = [0, 0]\<rparr>"
  by (simp add: free_page_def ex_defs ptbr_def set_ptbr_def pte_at_def)

text \<open>
  The field \<open>private\<close> is not among those \<open>free_page\<close> stores into.  Process 1 of
  \<open>forked\<close> frees the shared page 0, and the entry keeps the marker the fork set.
\<close>

lemma free_page_stale_marker:
  "free_page cfg2 0 forked =
     Inr \<lparr>processes = [\<lparr>pid = 0, pagetable = [Some [cow_pte 0, zero_pte], None]\<rparr>],
          current = \<lparr>pid = 1, pagetable =
            [Some [\<lparr>valid = False, writable = False, pfn = 0, private_flag = True\<rparr>, zero_pte],
             None]\<rparr>,
          mapcounts = [1, 0]\<rparr>"
  by (simp add: free_page_def ex_defs ptbr_def set_ptbr_def pte_at_def)

section \<open>handle_page_fault: breaking the sharing\<close>

text \<open>
  Claim C1, where the code keeps it.  In a well-formed state, take a write fault on a page
  whose entry is valid and marked COW.  If the share count of its frame is above 1 and
  some frame is free, \<open>handle_page_fault\<close> returns true, has lowered that count by one
  and has mapped the page, writable, to the frame the scan of \<open>alloc_page\<close> finds: a
  frame with count 0 before and 1 after, other than the old one.  If the share count is 1,
  it returns true and has set \<open>writable\<close> in the entry, with every share count as before.
  In both cases a write to the page no longer faults.
\<close>

theorem handle_page_fault_cow_break:
  assumes "wf_config cfg" and "wf_state cfg s"
    and "vpn < NR_PTES_PER_PAGE cfg * NR_PTES_PER_PAGE cfg"
    and "pte_at cfg (ptbr s) vpn = Some e" and "valid e" and "private_flag e"
  shows "(1 < mapcounts s ! pfn e \<and> (\<exists>k<NR_PAGEFRAMES cfg. mapcounts s ! k = 0) \<longrightarrow>
           (\<exists>s' g. handle_page_fault cfg h vpn RW_WRITE s = Inr (Some True, s') \<and>
              g = find_free (NR_PAGEFRAMES cfg) (mapcounts s) 0 \<and>
              g < NR_PAGEFRAMES cfg \<and> mapcounts s ! g = 0 \<and> g \<noteq> pfn e \<and>
              pte_at cfg (ptbr s') vpn =
                Some \<lparr>valid = True, writable = True, pfn = g, private_flag = True\<rparr> \<and>
              mapcounts s' = (mapcounts s)[pfn e := mapcounts s ! pfn e - 1, g := 1] \<and>
              processes s' = processes s \<and>
              \<not> write_faults cfg s' vpn)) \<and>
         (mapcounts s ! pfn e = 1 \<longrightarrow>
           (\<exists>s'. handle_page_fault cfg h vpn RW_WRITE s = Inr (Some True, s') \<and>
              pte_at cfg (ptbr s') vpn =
                Some \<lparr>valid = True, writable = True, pfn = pfn e, private_flag = True\<rparr> \<and>
              mapcounts s' = mapcounts s \<and>
              processes s' = processes s \<and>
              \<not> write_faults cfg s' vpn))"
proof -
  from assms(2) have sz: "sized_state cfg s" by (rule wf_state_sized)
  from wf_state_entry [OF assms(1-4)] assms(5) have f: "pfn e < NR_PAGEFRAMES cfg"
    by (auto simp add: wf_pte_def)
  show ?thesis
    using cow_break_shared [OF assms(1) sz assms(3-6) _ _ f, where rw = RW_WRITE and h = h]
      cow_break_last_sharer [OF assms(1) sz assms(3-6) _ f, where rw = RW_WRITE and h = h]
    by blast
qed

text \<open>
  The first case in \<open>forked\<close>, where process 1 writes to the shared page 0, and the
  second in \<open>parent_again\<close>, where process 0 writes to it as the last sharer.
\<close>

theorem handle_page_fault_cow_break_witness:
  "wf_config cfg2 \<and> wf_state cfg2 forked \<and> wf_state cfg2 parent_again \<and>
   (\<exists>s'. handle_page_fault cfg2 zero_heap 0 RW_WRITE forked = Inr (Some True, s') \<and>
         pte_at cfg2 (ptbr s') 0 =
           Some \<lparr>valid = True, writable = True, pfn = 1, private_flag = True\<rparr> \<and>
         mapcounts s' = [1, 1] \<and> \<not> write_faults cfg2 s' 0) \<and>
   (\<exists>s'. handle_page_fault cfg2 zero_heap 0 RW_WRITE parent_again = Inr (Some True, s') \<and>
         pte_at cfg2 (ptbr s') 0 =
           Some \<lparr>valid = True, writable = True, pfn = 0, private_flag = True\<rparr> \<and>
         mapcounts s' = [1, 1] \<and> \<not> write_faults cfg2 s' 0)"
proof -
  have 1: "wf_config cfg2" by (simp add: cfg2_def wf_config_def)
  have 3: "(0::nat) < NR_PTES_PER_PAGE cfg2 * NR_PTES_PER_PAGE cfg2" by (simp add: cfg2_def)
  have 5: "valid (cow_pte 0)" and 6: "private_flag (cow_pte 0)" by (simp_all add: cow_pte_def)
  have a2: "wf_state cfg2 forked" by (simp add: ex_defs wf_defs)
  have a4: "pte_at cfg2 (ptbr forked) 0 = Some (cow_pte 0)"
    by (simp add: ex_defs pte_at_def ptbr_def)
  have a7: "1 < mapcounts forked ! pfn (cow_pte 0) \<and>
            (\<exists>k<NR_PAGEFRAMES cfg2. mapcounts forked ! k = 0)"
    by (auto simp add: ex_defs intro: exI [of _ 1])
  have a8: "find_free (NR_PAGEFRAMES cfg2) (mapcounts forked) 0 = 1"
    by (simp add: ex_defs find_free.simps)
  have a9: "(mapcounts forked)[pfn (cow_pte 0) := mapcounts forked ! pfn (cow_pte 0) - 1, 1 := 1]
            = [1, 1]"
    by (simp add: ex_defs)
  have b2: "wf_state cfg2 parent_again" by (simp add: ex_defs wf_defs)
  have b4: "pte_at cfg2 (ptbr parent_again) 0 = Some (cow_pte 0)"
    by (simp add: ex_defs pte_at_def ptbr_def)
  have b7: "mapcounts parent_again ! pfn (cow_pte 0) = 1" by (simp add: ex_defs)
  have b8: "mapcounts parent_again = [1, 1]" and b9: "pfn (cow_pte 0) = 0"
    by (simp_all add: ex_defs)
  from handle_page_fault_cow_break [OF 1 a2 3 a4 5 6, where h = zero_heap] a7
  obtain s' g where r: "handle_page_fault cfg2 zero_heap 0 RW_WRITE forked = Inr (Some True, s')"
      and g: "g = find_free (NR_PAGEFRAMES cfg2) (mapcounts forked) 0"
      and p: "pte_at cfg2 (ptbr s') 0 =
                Some \<lparr>valid = True, writable = True, pfn = g, private_flag = True\<rparr>"
      and m: "mapcounts s' =
                (mapcounts forked)[pfn (cow_pte 0) := mapcounts forked ! pfn (cow_pte 0) - 1,
                                   g := 1]"
      and w: "\<not> write_faults cfg2 s' 0"
    by blast
  from g a8 have "g = 1" by simp
  with r p m w a9
  have shared: "\<exists>s'. handle_page_fault cfg2 zero_heap 0 RW_WRITE forked = Inr (Some True, s') \<and>
         pte_at cfg2 (ptbr s') 0 =
           Some \<lparr>valid = True, writable = True, pfn = 1, private_flag = True\<rparr> \<and>
         mapcounts s' = [1, 1] \<and> \<not> write_faults cfg2 s' 0"
    by auto
  from handle_page_fault_cow_break [OF 1 b2 3 b4 5 6, where h = zero_heap] b7
  have last: "\<exists>s'. handle_page_fault cfg2 zero_heap 0 RW_WRITE parent_again = Inr (Some True, s') \<and>
         pte_at cfg2 (ptbr s') 0 =
           Some \<lparr>valid = True, writable = True, pfn = 0, private_flag = True\<rparr> \<and>
         mapcounts s' = [1, 1] \<and> \<not> write_faults cfg2 s' 0"
    unfolding b8 b9 by blast
  from 1 a2 b2 shared last show ?thesis by blast
qed

text \<open>
  Against claim C1 as stated: in \<open>forked_full\<close> page 0 is COW with share count 2 and no
  frame is free.  The call lowers the count, \<open>alloc_page\<close> returns -1, which is dropped,
  and the call returns true with the entry as it was: the next write faults again.
\<close>

theorem handle_page_fault_cow_break_counterexample:
  "pte_at cfg2 (ptbr forked_full) 0 = Some (cow_pte 0) \<and>
   mapcounts forked_full ! 0 = 2 \<and>
   handle_page_fault cfg2 zero_heap 0 RW_WRITE forked_full =
     Inr (Some True, forked_full\<lparr>mapcounts := [1, 2]\<rparr>) \<and>
   pte_at cfg2 (ptbr (forked_full\<lparr>mapcounts := [1, 2]\<rparr>)) 0 = Some (cow_pte 0) \<and>
   write_faults cfg2 (forked_full\<lparr>mapcounts := [1, 2]\<rparr>) 0"
  by (simp add: handle_page_fault_def alloc_page_def ex_defs ptbr_def set_ptbr_def pte_at_def
      write_faults_def RW_WRITE_def find_free.simps Let_def)

section \<open>The loops of the fork\<close>

text \<open>
  The inner loop started at entry \<open>j\<close> leaves the entries before \<open>j\<close> alone, turns each
  later entry of the parent into its \<open>fork_parent_pte\<close>, turns the child's entry at the
  same place into the \<open>fork_child_pte\<close> of the two, and raises the share count of a frame
  once for every valid entry that names it.  It never leaves the frame table.
\<close>

lemma fork_ptes_done:
  "\<not> j < NR_PTES_PER_PAGE cfg \<Longrightarrow> fork_ptes cfg j pd cd mc = Inr (pd, cd, mc)"
  by (subst fork_ptes.simps) simp

lemma fork_ptes_skip:
  "j < NR_PTES_PER_PAGE cfg \<Longrightarrow> \<not> valid (pd ! j) \<Longrightarrow>
   fork_ptes cfg j pd cd mc = fork_ptes cfg (Suc j) pd cd mc"
  by (subst fork_ptes.simps) simp

lemma fork_child_pte_stores:
  "valid e \<Longrightarrow>
   fork_child_pte e c =
     (if writable e \<or> private_flag e
      then c\<lparr>private_flag := True, valid := True, pfn := pfn e\<rparr>
      else c\<lparr>valid := True, pfn := pfn e\<rparr>)"
  by (cases c) (simp add: fork_child_pte_def)

lemma fork_ptes_copy:
  assumes "j < NR_PTES_PER_PAGE cfg" and "valid (pd ! j)"
    and "j < length pd" and "j < length cd"
    and "pfn (pd ! j) < NR_PAGEFRAMES cfg"
  shows "fork_ptes cfg j pd cd mc =
           fork_ptes cfg (Suc j) (pd[j := fork_parent_pte (pd ! j)])
             (cd[j := fork_child_pte (pd ! j) (cd ! j)])
             (mc[pfn (pd ! j) := mc ! pfn (pd ! j) + 1])"
proof (cases "writable (pd ! j) \<or> private_flag (pd ! j)")
  case True
  with assms show ?thesis
    by (subst fork_ptes.simps)
       (simp add: Let_def fork_parent_pte_def fork_child_pte_stores)
next
  case False
  with assms show ?thesis
    by (subst fork_ptes.simps)
       (simp add: Let_def fork_parent_pte_def fork_child_pte_stores)
qed

lemma refers_fork_parent_pte [simp]: "refers f (fork_parent_pte e) = refers f e"
  by (simp add: refers_def fork_parent_pte_def)

lemma refers_fork_child_pte:
  "refers f (fork_child_pte e c) = (if valid e then refers f e else refers f c)"
  by (simp add: refers_def fork_child_pte_def)

lemma wf_pte_fork_parent_pte [simp]: "wf_pte cfg (fork_parent_pte e) = wf_pte cfg e"
  by (simp add: wf_pte_def fork_parent_pte_def)

lemma wf_pte_fork_child_pte:
  "wf_pte cfg (fork_child_pte e c) = (if valid e then wf_pte cfg e else wf_pte cfg c)"
  by (simp add: wf_pte_def fork_child_pte_def)

lemma fork_parent_pte_invalid: "\<not> valid e \<Longrightarrow> fork_parent_pte e = e"
  by (simp add: fork_parent_pte_def)

lemma fork_child_pte_invalid: "\<not> valid e \<Longrightarrow> fork_child_pte e c = c"
  by (simp add: fork_child_pte_def)

lemma u32_bump:
  "f < length mc \<Longrightarrow> g < length mc \<Longrightarrow>
   (mc[f := mc ! f + 1]) ! g = mc ! g + word_of_nat (if g = f then 1 else 0)"
  by (simp add: nth_list_update)

lemma fork_ptes_result:
  assumes "length pd = NR_PTES_PER_PAGE cfg" and "length cd = NR_PTES_PER_PAGE cfg"
    and "length mc = NR_PAGEFRAMES cfg" and "list_all (wf_pte cfg) pd"
    and "j \<le> NR_PTES_PER_PAGE cfg"
  shows "\<exists>mc'. fork_ptes cfg j pd cd mc =
            Inr (take j pd @ map fork_parent_pte (drop j pd),
                 take j cd @ map2 fork_child_pte (drop j pd) (drop j cd), mc') \<and>
           length mc' = NR_PAGEFRAMES cfg \<and>
           (\<forall>f<NR_PAGEFRAMES cfg.
              mc' ! f = mc ! f + word_of_nat (sum_list (map (refers f) (drop j pd))))"
  using assms
proof (induction n \<equiv> "NR_PTES_PER_PAGE cfg - j" arbitrary: j pd cd mc)
  case 0
  then have "j = NR_PTES_PER_PAGE cfg" by simp
  with 0 show ?case by (simp add: fork_ptes_done)
next
  case (Suc n)
  let ?N = "NR_PTES_PER_PAGE cfg" and ?nf = "NR_PAGEFRAMES cfg"
  from Suc.hyps(2) have j: "j < ?N" by simp
  with Suc.prems have jpd: "j < length pd" and jcd: "j < length cd" by simp_all
  from Suc.hyps(2) have n: "n = ?N - Suc j" by simp
  have dpd: "drop j pd = pd ! j # drop (Suc j) pd"
    using jpd by (simp add: Cons_nth_drop_Suc)
  have dcd: "drop j cd = cd ! j # drop (Suc j) cd"
    using jcd by (simp add: Cons_nth_drop_Suc)
  have tcd: "take (Suc j) cd = take j cd @ [cd ! j]"
    using jcd by (simp add: take_Suc_conv_app_nth)
  have tpd: "take (Suc j) pd = take j pd @ [pd ! j]"
    using jpd by (simp add: take_Suc_conv_app_nth)
  show ?case
  proof (cases "valid (pd ! j)")
    case False
    from Suc.hyps(1) [OF n Suc.prems(1,2,3,4)] j
    obtain mc' where
      run: "fork_ptes cfg (Suc j) pd cd mc =
              Inr (take (Suc j) pd @ map fork_parent_pte (drop (Suc j) pd),
                   take (Suc j) cd @ map2 fork_child_pte (drop (Suc j) pd) (drop (Suc j) cd), mc')"
      and len: "length mc' = ?nf"
      and cnt: "\<forall>f<?nf. mc' ! f = mc ! f + word_of_nat (sum_list (map (refers f) (drop (Suc j) pd)))"
      by auto
    have r0: "\<And>f. refers f (pd ! j) = 0" using False by (simp add: refers_def)
    have "fork_ptes cfg j pd cd mc =
            Inr (take j pd @ map fork_parent_pte (drop j pd),
                 take j cd @ map2 fork_child_pte (drop j pd) (drop j cd), mc')"
      using run False j
      by (simp add: fork_ptes_skip dpd dcd tcd tpd fork_parent_pte_invalid
          fork_child_pte_invalid)
    moreover have "\<forall>f<?nf. mc' ! f = mc ! f + word_of_nat (sum_list (map (refers f) (drop j pd)))"
      using cnt by (simp add: dpd r0)
    ultimately show ?thesis using len by blast
  next
    case True
    let ?f0 = "pfn (pd ! j)"
    let ?pd1 = "pd[j := fork_parent_pte (pd ! j)]"
    let ?cd1 = "cd[j := fork_child_pte (pd ! j) (cd ! j)]"
    let ?mc1 = "mc[?f0 := mc ! ?f0 + 1]"
    from Suc.prems(4) jpd have "wf_pte cfg (pd ! j)" by (simp add: list_all_length)
    with True have f0: "?f0 < ?nf" by (simp add: wf_pte_def)
    have step: "fork_ptes cfg j pd cd mc = fork_ptes cfg (Suc j) ?pd1 ?cd1 ?mc1"
      by (rule fork_ptes_copy [OF j True jpd jcd f0])
    have p1: "length ?pd1 = ?N" and p2: "length ?cd1 = ?N" and p3: "length ?mc1 = ?nf"
      using Suc.prems(1,2,3) by simp_all
    have p4: "list_all (wf_pte cfg) ?pd1"
      unfolding list_all_length
    proof (intro allI impI)
      fix k assume "k < length ?pd1"
      with Suc.prems(4) have "wf_pte cfg (pd ! k)" by (simp add: list_all_length)
      then show "wf_pte cfg (?pd1 ! k)"
        using \<open>wf_pte cfg (pd ! j)\<close> jpd by (cases "k = j") simp_all
    qed
    have p5: "Suc j \<le> ?N" using j by simp
    from Suc.hyps(1) [OF n p1 p2 p3 p4 p5]
    obtain mc' where
      run: "fork_ptes cfg (Suc j) ?pd1 ?cd1 ?mc1 =
              Inr (take (Suc j) ?pd1 @ map fork_parent_pte (drop (Suc j) ?pd1),
                   take (Suc j) ?cd1 @
                     map2 fork_child_pte (drop (Suc j) ?pd1) (drop (Suc j) ?cd1), mc')"
      and len: "length mc' = ?nf"
      and cnt: "\<forall>f<?nf. mc' ! f =
                  ?mc1 ! f + word_of_nat (sum_list (map (refers f) (drop (Suc j) ?pd1)))"
      by auto
    have t1: "take (Suc j) ?pd1 = take j pd @ [fork_parent_pte (pd ! j)]"
      using jpd by (simp add: take_Suc_conv_app_nth)
    have t2: "take (Suc j) ?cd1 = take j cd @ [fork_child_pte (pd ! j) (cd ! j)]"
      using jcd by (simp add: take_Suc_conv_app_nth)
    have d1: "drop (Suc j) ?pd1 = drop (Suc j) pd" by simp
    have d2: "drop (Suc j) ?cd1 = drop (Suc j) cd" by simp
    have res: "fork_ptes cfg j pd cd mc =
            Inr (take j pd @ map fork_parent_pte (drop j pd),
                 take j cd @ map2 fork_child_pte (drop j pd) (drop j cd), mc')"
      using run by (simp add: step t1 t2 d1 d2 dpd dcd)
    have "mc' ! f = mc ! f + word_of_nat (sum_list (map (refers f) (drop j pd)))"
      if f: "f < ?nf" for f
    proof -
      from f f0 Suc.prems(3) have "?mc1 ! f = mc ! f + word_of_nat (if f = ?f0 then 1 else 0)"
        by (simp add: u32_bump)
      moreover have "refers f (pd ! j) = (if f = ?f0 then 1 else 0)"
        using True by (auto simp add: refers_def)
      ultimately show ?thesis using cnt f by (simp add: d1 dpd)
    qed
    with res len show ?thesis by blast
  qed
qed

lemma map2_upt:
  "length xs = n \<Longrightarrow> map2 f xs (map g [0..<n]) = map (\<lambda>j. f (xs ! j) (g j)) [0..<n]"
  by (rule nth_equalityI) simp_all

lemma fork_ptes_directory:
  assumes "length pd = NR_PTES_PER_PAGE cfg" and "length mc = NR_PAGEFRAMES cfg"
    and "list_all (wf_pte cfg) pd"
  shows "\<exists>mc'. fork_ptes cfg 0 pd (malloc_directory cfg h i) mc =
            Inr (map fork_parent_pte pd,
                 map (\<lambda>j. fork_child_pte (pd ! j) (fresh_pte h i j)) [0..<NR_PTES_PER_PAGE cfg],
                 mc') \<and>
           length mc' = NR_PAGEFRAMES cfg \<and>
           (\<forall>f<NR_PAGEFRAMES cfg. mc' ! f = mc ! f + word_of_nat (dir_refs f (Some pd)))"
proof -
  have len: "length (malloc_directory cfg h i) = NR_PTES_PER_PAGE cfg" by simp
  have "map2 fork_child_pte pd (malloc_directory cfg h i) =
        map (\<lambda>j. fork_child_pte (pd ! j) (fresh_pte h i j)) [0..<NR_PTES_PER_PAGE cfg]"
    unfolding malloc_directory_def by (rule map2_upt [OF assms(1)])
  with fork_ptes_result [OF assms(1) len assms(2,3), of 0]
  show ?thesis by (simp add: dir_refs_def)
qed

text \<open>
  The outer loop does the same with the directories from slot \<open>i\<close> on; a slot of the
  child whose slot in the parent is empty is left as it was.
\<close>

lemma fork_dirs_done:
  "\<not> i < NR_PTES_PER_PAGE cfg \<Longrightarrow> fork_dirs cfg h i pt ct mc = Inr (pt, ct, mc)"
  by (subst fork_dirs.simps) simp

lemma fork_dirs_none:
  "i < NR_PTES_PER_PAGE cfg \<Longrightarrow> pt ! i = None \<Longrightarrow>
   fork_dirs cfg h i pt ct mc = fork_dirs cfg h (Suc i) pt ct mc"
  by (subst fork_dirs.simps) simp

lemma fork_dirs_some:
  "i < NR_PTES_PER_PAGE cfg \<Longrightarrow> pt ! i = Some pd \<Longrightarrow>
   fork_ptes cfg 0 pd (malloc_directory cfg h i) mc = Inr (pd', cd', mc') \<Longrightarrow>
   fork_dirs cfg h i pt ct mc = fork_dirs cfg h (Suc i) (pt[i := Some pd']) (ct[i := Some cd']) mc'"
  by (subst fork_dirs.simps) simp

lemma pt_refs_Cons: "pt_refs f (d # pt) = dir_refs f d + pt_refs f pt"
  by (simp add: pt_refs_def)

lemma pt_refs_Nil: "pt_refs f [] = 0"
  by (simp add: pt_refs_def)

lemma fork_dirs_result:
  assumes "wf_pagetable cfg pt" and "length ct = NR_PTES_PER_PAGE cfg"
    and "length mc = NR_PAGEFRAMES cfg" and "i \<le> NR_PTES_PER_PAGE cfg"
  shows "\<exists>mc'. fork_dirs cfg h i pt ct mc =
            Inr (take i pt @ fork_parent_table (drop i pt),
                 take i ct @
                   map (\<lambda>k. case pt ! k of
                              None \<Rightarrow> ct ! k
                            | Some pd \<Rightarrow>
                                Some (map (\<lambda>j. fork_child_pte (pd ! j) (fresh_pte h k j))
                                        [0..<NR_PTES_PER_PAGE cfg]))
                     [i..<NR_PTES_PER_PAGE cfg],
                 mc') \<and>
           length mc' = NR_PAGEFRAMES cfg \<and>
           (\<forall>f<NR_PAGEFRAMES cfg. mc' ! f = mc ! f + word_of_nat (pt_refs f (drop i pt)))"
  using assms
proof (induction n \<equiv> "NR_PTES_PER_PAGE cfg - i" arbitrary: i pt ct mc)
  case 0
  then have "i = NR_PTES_PER_PAGE cfg" by simp
  with 0 show ?case
    by (simp add: fork_dirs_done wf_pagetable_def fork_parent_table_def pt_refs_Nil)
next
  case (Suc n)
  let ?N = "NR_PTES_PER_PAGE cfg" and ?nf = "NR_PAGEFRAMES cfg"
  let ?slot = "\<lambda>pt ct k. case pt ! k of
                  None \<Rightarrow> ct ! k
                | Some pd \<Rightarrow> Some (map (\<lambda>j. fork_child_pte (pd ! j) (fresh_pte h k j)) [0..<?N])"
  from Suc.hyps(2) have i: "i < ?N" and n: "n = ?N - Suc i" by simp_all
  from Suc.prems(1) have len_pt: "length pt = ?N" by (simp add: wf_pagetable_def)
  with i Suc.prems(2) have ipt: "i < length pt" and ict: "i < length ct" by simp_all
  have dpt: "drop i pt = pt ! i # drop (Suc i) pt"
    using ipt by (simp add: Cons_nth_drop_Suc)
  have tpt: "take (Suc i) pt = take i pt @ [pt ! i]"
    using ipt by (simp add: take_Suc_conv_app_nth)
  have tct: "take (Suc i) ct = take i ct @ [ct ! i]"
    using ict by (simp add: take_Suc_conv_app_nth)
  have upt: "[i..<?N] = i # [Suc i..<?N]" using i by (simp add: upt_conv_Cons)
  have i': "Suc i \<le> ?N" using i by simp
  show ?case
  proof (cases "pt ! i")
    case None
    from Suc.hyps(1) [OF n Suc.prems(1,2,3) i']
    obtain mc' where
      run: "fork_dirs cfg h (Suc i) pt ct mc =
              Inr (take (Suc i) pt @ fork_parent_table (drop (Suc i) pt),
                   take (Suc i) ct @ map (?slot pt ct) [Suc i..<?N], mc')"
      and len: "length mc' = ?nf"
      and cnt: "\<forall>f<?nf. mc' ! f = mc ! f + word_of_nat (pt_refs f (drop (Suc i) pt))"
      by auto
    have "fork_dirs cfg h i pt ct mc =
            Inr (take i pt @ fork_parent_table (drop i pt),
                 take i ct @ map (?slot pt ct) [i..<?N], mc')"
      using run None i
      by (simp add: fork_dirs_none dpt tpt tct upt fork_parent_table_def)
    moreover have "\<forall>f<?nf. mc' ! f = mc ! f + word_of_nat (pt_refs f (drop i pt))"
      using cnt None by (simp add: dpt pt_refs_Cons dir_refs_def)
    ultimately show ?thesis using len by blast
  next
    case (Some pd)
    let ?cd = "map (\<lambda>j. fork_child_pte (pd ! j) (fresh_pte h i j)) [0..<?N]"
    from wf_pagetable_dir [OF Suc.prems(1) i Some]
    have len_pd: "length pd = ?N" and wf_pd: "list_all (wf_pte cfg) pd" by simp_all
    from fork_ptes_directory [OF len_pd Suc.prems(3) wf_pd, of h i]
    obtain mc1 where
      inner: "fork_ptes cfg 0 pd (malloc_directory cfg h i) mc =
                Inr (map fork_parent_pte pd, ?cd, mc1)"
      and len1: "length mc1 = ?nf"
      and cnt1: "\<forall>f<?nf. mc1 ! f = mc ! f + word_of_nat (dir_refs f (Some pd))"
      by blast
    let ?pt1 = "pt[i := Some (map fork_parent_pte pd)]"
    let ?ct1 = "ct[i := Some ?cd]"
    have step: "fork_dirs cfg h i pt ct mc = fork_dirs cfg h (Suc i) ?pt1 ?ct1 mc1"
      by (rule fork_dirs_some [OF i Some inner])
    have "wf_directory cfg (Some (map fork_parent_pte pd))"
      using len_pd wf_pd by (simp add: wf_directory_def list_all_length)
    with Suc.prems(1) ipt have p1: "wf_pagetable cfg ?pt1"
      unfolding wf_pagetable_def list_all_length
      by (auto simp add: nth_list_update)
    have p2: "length ?ct1 = ?N" using Suc.prems(2) by simp
    from Suc.hyps(1) [OF n p1 p2 len1 i']
    obtain mc' where
      run: "fork_dirs cfg h (Suc i) ?pt1 ?ct1 mc1 =
              Inr (take (Suc i) ?pt1 @ fork_parent_table (drop (Suc i) ?pt1),
                   take (Suc i) ?ct1 @ map (?slot ?pt1 ?ct1) [Suc i..<?N], mc')"
      and len: "length mc' = ?nf"
      and cnt: "\<forall>f<?nf. mc' ! f = mc1 ! f + word_of_nat (pt_refs f (drop (Suc i) ?pt1))"
      by auto
    have t1: "take (Suc i) ?pt1 = take i pt @ [Some (map fork_parent_pte pd)]"
      using ipt by (simp add: take_Suc_conv_app_nth)
    have t2: "take (Suc i) ?ct1 = take i ct @ [Some ?cd]"
      using ict by (simp add: take_Suc_conv_app_nth)
    have d1: "drop (Suc i) ?pt1 = drop (Suc i) pt" by simp
    have later: "map (?slot ?pt1 ?ct1) [Suc i..<?N] = map (?slot pt ct) [Suc i..<?N]"
      by (rule map_cong) (simp_all split: option.splits)
    have here: "?slot pt ct i = Some ?cd" using Some by simp
    have res: "fork_dirs cfg h i pt ct mc =
            Inr (take i pt @ fork_parent_table (drop i pt),
                 take i ct @ map (?slot pt ct) [i..<?N], mc')"
      unfolding step run t1 t2 d1 later upt
      using Some here by (simp add: dpt fork_parent_table_def)
    have "\<forall>f<?nf. mc' ! f = mc ! f + word_of_nat (pt_refs f (drop i pt))"
      using cnt cnt1 Some by (simp add: d1 dpt pt_refs_Cons)
    with res len show ?thesis by blast
  qed
qed

lemma switch_process_fork:
  assumes "wf_state cfg s" and "find_pid p (processes s) = None"
  shows "switch_process cfg h p s = Inr (fork_state cfg h p s)"
proof -
  let ?N = "NR_PTES_PER_PAGE cfg" and ?nf = "NR_PAGEFRAMES cfg"
  from assms(1) have pt: "wf_pagetable cfg (ptbr s)" and mc: "length (mapcounts s) = ?nf"
    by (simp_all add: wf_state_def)
  have ct: "length (malloc_pagetable cfg h) = ?N" by (simp add: malloc_pagetable_def)
  from fork_dirs_result [OF pt ct mc, of 0 h]
  obtain mc' where
    run: "fork_dirs cfg h 0 (ptbr s) (malloc_pagetable cfg h) (mapcounts s) =
            Inr (fork_parent_table (ptbr s),
                 map (\<lambda>k. case ptbr s ! k of
                            None \<Rightarrow> malloc_pagetable cfg h ! k
                          | Some pd \<Rightarrow>
                              Some (map (\<lambda>j. fork_child_pte (pd ! j) (fresh_pte h k j)) [0..<?N]))
                   [0..<?N],
                 mc')"
    and len: "length mc' = ?nf"
    and cnt: "\<forall>f<?nf. mc' ! f = mapcounts s ! f + word_of_nat (pt_refs f (ptbr s))"
    by auto
  have "map (\<lambda>k. case ptbr s ! k of
                   None \<Rightarrow> malloc_pagetable cfg h ! k
                 | Some pd \<Rightarrow>
                     Some (map (\<lambda>j. fork_child_pte (pd ! j) (fresh_pte h k j)) [0..<?N]))
          [0..<?N] = fork_child_table cfg h (ptbr s)"
    unfolding fork_child_table_def
    by (rule map_cong)
       (simp_all add: fork_child_slot_def malloc_pagetable_def split: option.splits)
  moreover have "mc' = fork_counts cfg (ptbr s) (mapcounts s)"
    using len cnt by (intro nth_equalityI) (simp_all add: fork_counts_def)
  ultimately show ?thesis
    using run assms(2) by (simp add: switch_process_def fork_state_def)
qed

lemma pte_at_fork_parent_table:
  assumes "vpn div NR_PTES_PER_PAGE cfg < length pt"
    and "pt ! (vpn div NR_PTES_PER_PAGE cfg) = Some dir"
    and "vpn mod NR_PTES_PER_PAGE cfg < length dir"
  shows "pte_at cfg (fork_parent_table pt) vpn =
           Some (fork_parent_pte (dir ! (vpn mod NR_PTES_PER_PAGE cfg)))"
  using assms by (simp add: pte_at_def fork_parent_table_def)

lemma pte_at_fork_child_table:
  assumes "vpn div NR_PTES_PER_PAGE cfg < NR_PTES_PER_PAGE cfg"
    and "pt ! (vpn div NR_PTES_PER_PAGE cfg) = Some dir"
    and "vpn mod NR_PTES_PER_PAGE cfg < NR_PTES_PER_PAGE cfg"
  shows "pte_at cfg (fork_child_table cfg h pt) vpn =
           Some (fork_child_pte (dir ! (vpn mod NR_PTES_PER_PAGE cfg))
                   (fresh_pte h (vpn div NR_PTES_PER_PAGE cfg) (vpn mod NR_PTES_PER_PAGE cfg)))"
  using assms by (simp add: pte_at_def fork_child_table_def fork_child_slot_def)

lemma fork_counts_nth:
  "f < NR_PAGEFRAMES cfg \<Longrightarrow>
   fork_counts cfg pt mc ! f = mc ! f + word_of_nat (pt_refs f pt)"
  by (simp add: fork_counts_def)

lemma fork_pte_cow:
  assumes "valid e" and "writable e \<or> private_flag e"
  shows "valid (fork_parent_pte e) \<and> pfn (fork_parent_pte e) = pfn e \<and>
         \<not> writable (fork_parent_pte e) \<and> private_flag (fork_parent_pte e) \<and>
         valid (fork_child_pte e c) \<and> pfn (fork_child_pte e c) = pfn e \<and>
         writable (fork_child_pte e c) = writable c \<and> private_flag (fork_child_pte e c)"
  using assms by (auto simp add: fork_parent_pte_def fork_child_pte_def)

lemma fork_pte_read_only:
  assumes "valid e" and "\<not> writable e" and "\<not> private_flag e"
  shows "fork_parent_pte e = e \<and>
         fork_child_pte e c =
           \<lparr>valid = True, writable = writable c, pfn = pfn e, private_flag = private_flag c\<rparr>"
  using assms by (simp add: fork_parent_pte_def fork_child_pte_def)

section \<open>switch_process: the fork\<close>

text \<open>
  The search of the ready queue finds nothing exactly when no process there has the pid,
  and otherwise the first process that has it.
\<close>

lemma find_pid_None_iff: "find_pid p ps = None \<longleftrightarrow> p \<notin> pid ` set ps"
  by (induction ps) (auto split: option.splits)

lemma find_pid_Some_iff:
  "find_pid p ps = Some k \<longleftrightarrow>
   k < length ps \<and> pid (ps ! k) = p \<and> (\<forall>i<k. pid (ps ! i) \<noteq> p)"
proof (induction ps arbitrary: k)
  case Nil
  show ?case by simp
next
  case (Cons t ts)
  show ?case
  proof (cases "pid t = p")
    case True
    then show ?thesis by (cases k) auto
  next
    case False
    show ?thesis
    proof (cases k)
      case 0
      with False show ?thesis by (simp split: option.splits)
    next
      case (Suc m)
      have "(\<forall>i<Suc m. pid ((t # ts) ! i) \<noteq> p) \<longleftrightarrow> (\<forall>i<m. pid (ts ! i) \<noteq> p)"
        using False by (auto simp add: less_Suc_eq_0_disj)
      moreover have "find_pid p (t # ts) = Some (Suc m) \<longleftrightarrow> find_pid p ts = Some m"
        using False by (cases "find_pid p ts") simp_all
      ultimately show ?thesis using Suc Cons.IH [of m] by simp
    qed
  qed
qed

text \<open>
  Claim C3, as far as the code goes.  In a well-formed state, \<open>switch_process\<close> with a pid
  that no process of the ready queue has returns with a new current process of that pid
  and the parent appended to the queue.  For every page valid in the parent, the child's
  entry is valid with the parent's frame number, and the parent's entry keeps its frame; if
  the parent's entry was writable or already COW, the parent's entry ends with \<open>writable\<close>
  clear and the COW marker set and the child's with the COW marker set, and if it was
  read-only and not COW, the parent's entry is the old one.  Every frame's share count has
  grown by one for each valid page of the parent on that frame: by exactly one when the
  page is the parent's only one on its frame.  The fork never stores into \<open>writable\<close> of
  the child's entry, nor into its \<open>private\<close> outside the COW case: there the entry has what
  the block from \<open>malloc\<close> held, where the claim has \<open>writable\<close> clear and a read-only
  entry copied as it is.
\<close>

theorem switch_process_forks:
  assumes "wf_config cfg" and "wf_state cfg s" and "p \<notin> pid ` set (processes s)"
  shows "\<exists>s'. switch_process cfg h p s = Inr s' \<and>
           pid (current s') = p \<and>
           butlast (processes s') = processes s \<and>
           pid (last (processes s')) = pid (current s) \<and>
           (\<forall>vpn e. vpn < NR_PTES_PER_PAGE cfg * NR_PTES_PER_PAGE cfg \<and>
                    pte_at cfg (ptbr s) vpn = Some e \<and> valid e \<longrightarrow>
              (\<exists>pe ce. pte_at cfg (pagetable (last (processes s'))) vpn = Some pe \<and>
                       pte_at cfg (ptbr s') vpn = Some ce \<and>
                       valid pe \<and> pfn pe = pfn e \<and> valid ce \<and> pfn ce = pfn e \<and>
                       (writable e \<or> private_flag e \<longrightarrow>
                          \<not> writable pe \<and> private_flag pe \<and> private_flag ce) \<and>
                       (\<not> writable e \<and> \<not> private_flag e \<longrightarrow>
                          pe = e \<and>
                          private_flag ce =
                            private_flag (fresh_pte h (vpn div NR_PTES_PER_PAGE cfg)
                                            (vpn mod NR_PTES_PER_PAGE cfg))) \<and>
                       writable ce =
                         writable (fresh_pte h (vpn div NR_PTES_PER_PAGE cfg)
                                     (vpn mod NR_PTES_PER_PAGE cfg)) \<and>
                       (pt_refs (pfn e) (ptbr s) = 1 \<longrightarrow>
                          mapcounts s' ! pfn e = mapcounts s ! pfn e + 1))) \<and>
           (\<forall>f<NR_PAGEFRAMES cfg.
              mapcounts s' ! f = mapcounts s ! f + word_of_nat (pt_refs f (ptbr s)))"
proof -
  let ?s' = "fork_state cfg h p s"
  from assms(3) have none: "find_pid p (processes s) = None" by (simp add: find_pid_None_iff)
  have run: "switch_process cfg h p s = Inr ?s'"
    by (rule switch_process_fork [OF assms(2) none])
  have cur: "pid (current ?s') = p" and ready: "butlast (processes ?s') = processes s"
    and par: "pid (last (processes ?s')) = pid (current s)"
    by (simp_all add: fork_state_def)
  have cnt: "\<forall>f<NR_PAGEFRAMES cfg.
      mapcounts ?s' ! f = mapcounts s ! f + word_of_nat (pt_refs f (ptbr s))"
    by (simp add: fork_state_def fork_counts_nth)
  have ptes: "\<exists>pe ce. pte_at cfg (pagetable (last (processes ?s'))) vpn = Some pe \<and>
                       pte_at cfg (ptbr ?s') vpn = Some ce \<and>
                       valid pe \<and> pfn pe = pfn e \<and> valid ce \<and> pfn ce = pfn e \<and>
                       (writable e \<or> private_flag e \<longrightarrow>
                          \<not> writable pe \<and> private_flag pe \<and> private_flag ce) \<and>
                       (\<not> writable e \<and> \<not> private_flag e \<longrightarrow>
                          pe = e \<and>
                          private_flag ce =
                            private_flag (fresh_pte h (vpn div NR_PTES_PER_PAGE cfg)
                                            (vpn mod NR_PTES_PER_PAGE cfg))) \<and>
                       writable ce =
                         writable (fresh_pte h (vpn div NR_PTES_PER_PAGE cfg)
                                     (vpn mod NR_PTES_PER_PAGE cfg)) \<and>
                       (pt_refs (pfn e) (ptbr s) = 1 \<longrightarrow>
                          mapcounts ?s' ! pfn e = mapcounts s ! pfn e + 1)"
    if vpn: "vpn < NR_PTES_PER_PAGE cfg * NR_PTES_PER_PAGE cfg"
      and e: "pte_at cfg (ptbr s) vpn = Some e" and v: "valid e" for vpn e
  proof -
    let ?i = "vpn div NR_PTES_PER_PAGE cfg" and ?j = "vpn mod NR_PTES_PER_PAGE cfg"
    let ?c = "fresh_pte h ?i ?j"
    from wf_state_entry [OF assms(1,2) vpn e] obtain dir where
      dir: "ptbr s ! ?i = Some dir" and ej: "e = dir ! ?j" and
      len_dir: "length dir = NR_PTES_PER_PAGE cfg" and
      len_pt: "length (ptbr s) = NR_PTES_PER_PAGE cfg" and
      i: "?i < NR_PTES_PER_PAGE cfg" and j: "?j < NR_PTES_PER_PAGE cfg" and
      wfe: "wf_pte cfg e"
      by blast
    from wfe v have f: "pfn e < NR_PAGEFRAMES cfg" by (simp add: wf_pte_def)
    have pe: "pte_at cfg (pagetable (last (processes ?s'))) vpn = Some (fork_parent_pte e)"
      using pte_at_fork_parent_table [of vpn cfg "ptbr s" dir] i j len_pt len_dir dir ej
      by (simp add: fork_state_def)
    have ce: "pte_at cfg (ptbr ?s') vpn = Some (fork_child_pte e ?c)"
      using pte_at_fork_child_table [OF i dir j, of h] ej
      by (simp add: fork_state_def ptbr_def)
    have same: "valid (fork_parent_pte e) \<and> pfn (fork_parent_pte e) = pfn e \<and>
                valid (fork_child_pte e ?c) \<and> pfn (fork_child_pte e ?c) = pfn e \<and>
                writable (fork_child_pte e ?c) = writable ?c"
      using v by (simp add: fork_parent_pte_def fork_child_pte_def)
    have ro: "\<not> writable e \<and> \<not> private_flag e \<longrightarrow>
                fork_parent_pte e = e \<and> private_flag (fork_child_pte e ?c) = private_flag ?c"
      using v by (simp add: fork_parent_pte_def fork_child_pte_def)
    have one: "pt_refs (pfn e) (ptbr s) = 1 \<longrightarrow>
                 mapcounts ?s' ! pfn e = mapcounts s ! pfn e + 1"
      using cnt f by simp
    from pe ce same ro one fork_pte_cow [OF v, of ?c]
    show ?thesis by blast
  qed
  from run cur ready par cnt ptes show ?thesis by blast
qed

text \<open>
  Process 0 of \<open>one_page\<close> forks process 1 on a heap whose blocks were used before.  Page 0
  is shared, with count 2 and the COW marker in both entries, and the parent's entry is
  read-only; the child's entry is writable, as the block was.
\<close>

theorem switch_process_forks_witness:
  "wf_config cfg2 \<and> wf_state cfg2 one_page \<and> 1 \<notin> pid ` set (processes one_page) \<and>
   pte_at cfg2 (ptbr one_page) 0 = Some (rw_pte 0) \<and>
   writable (fresh_pte used_heap 0 0) \<and>
   (\<exists>s' pe ce. switch_process cfg2 used_heap 1 one_page = Inr s' \<and> pid (current s') = 1 \<and>
      pte_at cfg2 (pagetable (last (processes s'))) 0 = Some pe \<and>
      pte_at cfg2 (ptbr s') 0 = Some ce \<and>
      valid pe \<and> pfn pe = 0 \<and> valid ce \<and> pfn ce = 0 \<and>
      \<not> writable pe \<and> private_flag pe \<and> writable ce \<and> private_flag ce \<and>
      mapcounts s' ! 0 = 2)"
proof -
  have 1: "wf_config cfg2" by (simp add: cfg2_def wf_config_def)
  have 2: "wf_state cfg2 one_page" by (simp add: ex_defs wf_defs)
  have 3: "1 \<notin> pid ` set (processes one_page)" by (simp add: ex_defs)
  have 4: "pte_at cfg2 (ptbr one_page) 0 = Some (rw_pte 0)"
    by (simp add: ex_defs pte_at_def ptbr_def)
  have 5: "(0::nat) < NR_PTES_PER_PAGE cfg2 * NR_PTES_PER_PAGE cfg2" by (simp add: cfg2_def)
  have 6: "valid (rw_pte 0)" and 7: "writable (rw_pte 0) \<or> private_flag (rw_pte 0)"
    and 8: "pfn (rw_pte 0) = 0"
    by (simp_all add: rw_pte_def)
  have 9: "pt_refs 0 (ptbr one_page) = 1" and 10: "mapcounts one_page ! 0 + 1 = 2"
    by (simp_all add: ex_defs refs_defs)
  have 11: "writable (fresh_pte used_heap (0 div NR_PTES_PER_PAGE cfg2)
                        (0 mod NR_PTES_PER_PAGE cfg2))"
    and 12: "writable (fresh_pte used_heap 0 0)"
    by (simp_all add: used_heap_def)
  from switch_process_forks [OF 1 2 3, where h = used_heap] obtain s' where
    run: "switch_process cfg2 used_heap 1 one_page = Inr s'" and cur: "pid (current s') = 1" and
    all: "\<forall>vpn e. vpn < NR_PTES_PER_PAGE cfg2 * NR_PTES_PER_PAGE cfg2 \<and>
                    pte_at cfg2 (ptbr one_page) vpn = Some e \<and> valid e \<longrightarrow>
              (\<exists>pe ce. pte_at cfg2 (pagetable (last (processes s'))) vpn = Some pe \<and>
                       pte_at cfg2 (ptbr s') vpn = Some ce \<and>
                       valid pe \<and> pfn pe = pfn e \<and> valid ce \<and> pfn ce = pfn e \<and>
                       (writable e \<or> private_flag e \<longrightarrow>
                          \<not> writable pe \<and> private_flag pe \<and> private_flag ce) \<and>
                       (\<not> writable e \<and> \<not> private_flag e \<longrightarrow>
                          pe = e \<and>
                          private_flag ce =
                            private_flag (fresh_pte used_heap (vpn div NR_PTES_PER_PAGE cfg2)
                                            (vpn mod NR_PTES_PER_PAGE cfg2))) \<and>
                       writable ce =
                         writable (fresh_pte used_heap (vpn div NR_PTES_PER_PAGE cfg2)
                                     (vpn mod NR_PTES_PER_PAGE cfg2)) \<and>
                       (pt_refs (pfn e) (ptbr one_page) = 1 \<longrightarrow>
                          mapcounts s' ! pfn e = mapcounts one_page ! pfn e + 1))"
    by blast
  from all 5 4 6 obtain pe ce where
    "pte_at cfg2 (pagetable (last (processes s'))) 0 = Some pe"
    "pte_at cfg2 (ptbr s') 0 = Some ce"
    "valid pe" "pfn pe = pfn (rw_pte 0)" "valid ce" "pfn ce = pfn (rw_pte 0)"
    "writable (rw_pte 0) \<or> private_flag (rw_pte 0) \<longrightarrow>
       \<not> writable pe \<and> private_flag pe \<and> private_flag ce"
    "writable ce = writable (fresh_pte used_heap (0 div NR_PTES_PER_PAGE cfg2)
                               (0 mod NR_PTES_PER_PAGE cfg2))"
    "pt_refs (pfn (rw_pte 0)) (ptbr one_page) = 1 \<longrightarrow>
       mapcounts s' ! pfn (rw_pte 0) = mapcounts one_page ! pfn (rw_pte 0) + 1"
    by blast
  with 7 8 9 10 11 run cur have
    "switch_process cfg2 used_heap 1 one_page = Inr s' \<and> pid (current s') = 1 \<and>
      pte_at cfg2 (pagetable (last (processes s'))) 0 = Some pe \<and>
      pte_at cfg2 (ptbr s') 0 = Some ce \<and>
      valid pe \<and> pfn pe = 0 \<and> valid ce \<and> pfn ce = 0 \<and>
      \<not> writable pe \<and> private_flag pe \<and> writable ce \<and> private_flag ce \<and>
      mapcounts s' ! 0 = 2"
    by simp
  with 1 2 3 4 12 show ?thesis by blast
qed

section \<open>A write after the fork\<close>

lemma dir_refs_fork_parent [simp]:
  "dir_refs f (map_option (map fork_parent_pte) d) = dir_refs f d"
  by (cases d) (simp_all add: dir_refs_def comp_def)

lemma pt_refs_fork_parent_table [simp]: "pt_refs f (fork_parent_table pt) = pt_refs f pt"
  by (simp add: pt_refs_def fork_parent_table_def comp_def)

lemma wf_directory_fork_parent [simp]:
  "wf_directory cfg (map_option (map fork_parent_pte) d) = wf_directory cfg d"
  by (cases d) (simp_all add: wf_directory_def list_all_length)

lemma wf_pagetable_fork_parent_table [simp]:
  "wf_pagetable cfg (fork_parent_table pt) = wf_pagetable cfg pt"
  by (simp add: wf_pagetable_def fork_parent_table_def list_all_length)

text \<open>
  The child's table has its declared sizes whatever the heap held; that its valid entries
  are those of the parent needs a heap without stale mappings.
\<close>

lemma map_nth_upt: "length xs = n \<Longrightarrow> map (\<lambda>i. f (xs ! i)) [0..<n] = map f xs"
  by (rule nth_equalityI) simp_all

lemma sized_pagetable_fork_child_table:
  "sized_pagetable cfg (fork_child_table cfg h pt)"
  by (auto simp add: sized_pagetable_def fork_child_table_def fork_child_slot_def
      sized_directory_def list_all_length split: option.splits)

lemma sized_state_fork_state:
  "length (mapcounts s) = NR_PAGEFRAMES cfg \<Longrightarrow> sized_state cfg (fork_state cfg h p s)"
  by (simp add: sized_state_def fork_state_def ptbr_def fork_counts_def
      sized_pagetable_fork_child_table)

lemma fork_child_slot_blank:
  assumes "blank_heap cfg h" and "wf_pagetable cfg pt" and "i < NR_PTES_PER_PAGE cfg"
  shows "dir_refs f (fork_child_slot cfg h pt i) = dir_refs f (pt ! i)"
    and "wf_directory cfg (fork_child_slot cfg h pt i)"
proof -
  let ?N = "NR_PTES_PER_PAGE cfg"
  show "dir_refs f (fork_child_slot cfg h pt i) = dir_refs f (pt ! i)"
  proof (cases "pt ! i")
    case None
    with blank_heap_slot [OF assms(1,3)] show ?thesis
      by (simp add: fork_child_slot_def dir_refs_def)
  next
    case (Some pd)
    from wf_pagetable_dir [OF assms(2,3) Some] have len: "length pd = ?N" by simp
    have "map (\<lambda>j. refers f (fork_child_pte (pd ! j) (fresh_pte h i j))) [0..<?N] =
          map (\<lambda>j. refers f (pd ! j)) [0..<?N]"
      using blank_heap_pte [OF assms(1,3)]
      by (intro map_cong) (auto simp add: refers_def fork_child_pte_def)
    also have "\<dots> = map (refers f) pd"
      by (rule map_nth_upt [OF len])
    finally show ?thesis using Some by (simp add: fork_child_slot_def dir_refs_def comp_def)
  qed
  show "wf_directory cfg (fork_child_slot cfg h pt i)"
  proof (cases "pt ! i")
    case None
    with blank_heap_slot [OF assms(1,3)] show ?thesis
      by (simp add: fork_child_slot_def wf_directory_def)
  next
    case (Some pd)
    from wf_pagetable_dir [OF assms(2,3) Some]
    have len: "length pd = ?N" and wf: "list_all (wf_pte cfg) pd" by simp_all
    have "wf_pte cfg (fork_child_pte (pd ! j) (fresh_pte h i j))" if "j < ?N" for j
      using that len wf blank_heap_pte [OF assms(1,3) that]
      by (simp add: wf_pte_fork_child_pte list_all_length) (simp add: wf_pte_def)
    with Some show ?thesis
      by (simp add: fork_child_slot_def wf_directory_def list_all_length)
  qed
qed

lemma pt_refs_fork_child_table:
  assumes "blank_heap cfg h" and "wf_pagetable cfg pt"
  shows "pt_refs f (fork_child_table cfg h pt) = pt_refs f pt"
proof -
  let ?N = "NR_PTES_PER_PAGE cfg"
  from assms(2) have len: "length pt = ?N" by (simp add: wf_pagetable_def)
  have "map (\<lambda>i. dir_refs f (fork_child_slot cfg h pt i)) [0..<?N] =
        map (\<lambda>i. dir_refs f (pt ! i)) [0..<?N]"
    using fork_child_slot_blank(1) [OF assms] by (intro map_cong) simp_all
  also have "\<dots> = map (dir_refs f) pt"
    by (rule map_nth_upt [OF len])
  finally show ?thesis by (simp add: pt_refs_def fork_child_table_def comp_def)
qed

lemma wf_pagetable_fork_child_table:
  assumes "blank_heap cfg h" and "wf_pagetable cfg pt"
  shows "wf_pagetable cfg (fork_child_table cfg h pt)"
  using fork_child_slot_blank(2) [OF assms]
  by (simp add: wf_pagetable_def fork_child_table_def list_all_length)

lemma wf_state_fork_state:
  "blank_heap cfg h \<Longrightarrow> wf_state cfg s \<Longrightarrow> wf_state cfg (fork_state cfg h p s)"
  by (simp add: wf_state_def fork_state_def ptbr_def fork_counts_def
      wf_pagetable_fork_child_table)

lemma refers_le_pt_refs:
  assumes "wf_config cfg" and "sized_pagetable cfg (ptbr s)"
    and "vpn < NR_PTES_PER_PAGE cfg * NR_PTES_PER_PAGE cfg"
    and "pte_at cfg (ptbr s) vpn = Some e"
  shows "refers f e \<le> pt_refs f (ptbr s)"
proof -
  let ?i = "vpn div NR_PTES_PER_PAGE cfg" and ?j = "vpn mod NR_PTES_PER_PAGE cfg"
  note b = sized_pagetable_lengths [OF assms(1-3)]
  from assms(4) obtain dir where dir: "ptbr s ! ?i = Some dir" and e: "e = dir ! ?j"
    using pte_at_SomeD by blast
  from b dir have "?j < length dir" by simp
  with e have "refers f e \<in> set (map (refers f) dir)" by simp
  then have "refers f e \<le> dir_refs f (Some dir)"
    unfolding dir_refs_def option.case by (auto intro: member_le_sum_list)
  moreover from b have "dir_refs f (ptbr s ! ?i) \<in> set (map (dir_refs f) (ptbr s))" by simp
  then have "dir_refs f (ptbr s ! ?i) \<le> pt_refs f (ptbr s)"
    unfolding pt_refs_def by (auto intro: member_le_sum_list)
  ultimately show ?thesis using dir by simp
qed

lemma share_inv_count:
  "share_inv cfg s \<Longrightarrow> f < NR_PAGEFRAMES cfg \<Longrightarrow> unat (mapcounts s ! f) = total_refs f s"
  by (simp add: share_inv_iff)

text \<open>
  Claim C4, as the code has it.  Take a well-formed state whose share counts are right, a
  page of the current process that is valid and writable or COW, alone on its frame
  (share count 1), and a free frame.  A fork makes the page shared: both entries are COW
  on the same frame, the parent's read-only, with share count 2.  The child's write fault
  then returns true, maps the child's page, writable, to another frame, which gets share
  count 1, and lowers the old frame's count to 1.  The parent's entry is not touched by
  the fault: it keeps its frame and stays read-only and COW, so the two processes are on
  different frames.
\<close>

theorem fork_then_child_write:
  assumes "wf_config cfg" and "wf_state cfg s" and "share_inv cfg s"
    and "p \<notin> pid ` set (processes s)"
    and "vpn < NR_PTES_PER_PAGE cfg * NR_PTES_PER_PAGE cfg"
    and "pte_at cfg (ptbr s) vpn = Some e" and "valid e"
    and "writable e \<or> private_flag e"
    and "mapcounts s ! pfn e = 1" and "\<exists>k<NR_PAGEFRAMES cfg. mapcounts s ! k = 0"
  shows "\<exists>s1 s2 g ce.
           switch_process cfg h p s = Inr s1 \<and>
           pte_at cfg (ptbr s1) vpn = Some ce \<and>
           valid ce \<and> pfn ce = pfn e \<and> private_flag ce \<and>
           pte_at cfg (pagetable (last (processes s1))) vpn =
             Some \<lparr>valid = True, writable = False, pfn = pfn e, private_flag = True\<rparr> \<and>
           mapcounts s1 ! pfn e = 2 \<and>
           handle_page_fault cfg h vpn RW_WRITE s1 = Inr (Some True, s2) \<and>
           g < NR_PAGEFRAMES cfg \<and> g \<noteq> pfn e \<and>
           pte_at cfg (ptbr s2) vpn =
             Some \<lparr>valid = True, writable = True, pfn = g, private_flag = True\<rparr> \<and>
           mapcounts s2 ! pfn e = 1 \<and> mapcounts s2 ! g = 1 \<and>
           processes s2 = processes s1 \<and>
           pte_at cfg (pagetable (last (processes s2))) vpn =
             Some \<lparr>valid = True, writable = False, pfn = pfn e, private_flag = True\<rparr>"
proof -
  let ?nf = "NR_PAGEFRAMES cfg" and ?f = "pfn e"
  let ?i = "vpn div NR_PTES_PER_PAGE cfg" and ?j = "vpn mod NR_PTES_PER_PAGE cfg"
  let ?s1 = "fork_state cfg h p s"
  let ?cow = "\<lparr>valid = True, writable = False, pfn = ?f, private_flag = True\<rparr>"
  let ?ce = "fork_child_pte e (fresh_pte h ?i ?j)"
  from wf_state_entry [OF assms(1,2,5,6)] obtain dir where
    dir: "ptbr s ! ?i = Some dir" and ej: "e = dir ! ?j" and
    len_dir: "length dir = NR_PTES_PER_PAGE cfg" and
    len_pt: "length (ptbr s) = NR_PTES_PER_PAGE cfg" and
    len_mc: "length (mapcounts s) = ?nf" and
    i: "?i < NR_PTES_PER_PAGE cfg" and j: "?j < NR_PTES_PER_PAGE cfg" and
    wfe: "wf_pte cfg e"
    by blast
  from wfe assms(7) have f: "?f < ?nf" by (simp add: wf_pte_def)
  from assms(2) have szpt: "sized_pagetable cfg (ptbr s)"
    by (simp add: wf_state_def wf_pagetable_sized)
  from assms(4) have none: "find_pid p (processes s) = None" by (simp add: find_pid_None_iff)
  have run1: "switch_process cfg h p s = Inr ?s1"
    by (rule switch_process_fork [OF assms(2) none])
  have sz1: "sized_state cfg ?s1" by (rule sized_state_fork_state [OF len_mc])
  \<comment> \<open>the two entries after the fork\<close>
  have fp: "fork_parent_pte e = ?cow"
    using assms(7,8) by (auto simp add: fork_parent_pte_def)
  have fc: "valid ?ce" "pfn ?ce = ?f" "private_flag ?ce"
    using assms(7,8) by (auto simp add: fork_child_pte_def)
  have child1: "pte_at cfg (ptbr ?s1) vpn = Some ?ce"
    using pte_at_fork_child_table [OF i dir j, of h] ej
    by (simp add: fork_state_def ptbr_def)
  have parent1: "pte_at cfg (pagetable (last (processes ?s1))) vpn = Some ?cow"
    using pte_at_fork_parent_table [of vpn cfg "ptbr s" dir] i j len_pt len_dir dir ej fp
    by (simp add: fork_state_def)
  \<comment> \<open>the share counts after the fork\<close>
  have "refers ?f e = 1" using assms(7) by (simp add: refers_def)
  with refers_le_pt_refs [OF assms(1) szpt assms(5,6), of ?f]
  have "1 \<le> pt_refs ?f (ptbr s)" by simp
  moreover from share_inv_count [OF assms(3) f] assms(9) have "total_refs ?f s = 1" by simp
  then have "pt_refs ?f (ptbr s) \<le> 1" by (simp add: total_refs_def)
  ultimately have one: "pt_refs ?f (ptbr s) = 1" by simp
  have two: "mapcounts ?s1 ! ?f = 2"
    using f one assms(9) by (simp add: fork_state_def fork_counts_nth)
  from assms(10) obtain k where k: "k < ?nf" and k0: "mapcounts s ! k = 0" by blast
  from share_inv_count [OF assms(3) k] k0 have "pt_refs k (ptbr s) = 0"
    by (simp add: total_refs_def)
  with k k0 have "mapcounts ?s1 ! k = 0" by (simp add: fork_state_def fork_counts_nth)
  with k have free1: "\<exists>k<?nf. mapcounts ?s1 ! k = 0" by blast
  have len1: "length (mapcounts ?s1) = ?nf" using sz1 by (simp add: sized_state_def)
  \<comment> \<open>the child's write\<close>
  have many: "1 < mapcounts ?s1 ! pfn ?ce" using two fc(2) by simp
  have fce: "pfn ?ce < ?nf" using f fc(2) by simp
  from cow_break_shared [OF assms(1) sz1 assms(5) child1 fc(1,3) many free1 fce,
      where rw = RW_WRITE and h = h]
  obtain s2 g where
    run2: "handle_page_fault cfg h vpn RW_WRITE ?s1 = Inr (Some True, s2)" and
    g: "g < ?nf" and gf: "g \<noteq> pfn ?ce" and
    child2: "pte_at cfg (ptbr s2) vpn =
               Some \<lparr>valid = True, writable = True, pfn = g, private_flag = True\<rparr>" and
    m2: "mapcounts s2 = (mapcounts ?s1)[pfn ?ce := mapcounts ?s1 ! pfn ?ce - 1, g := 1]" and
    q2: "processes s2 = processes ?s1"
    by auto
  from gf fc(2) have gf': "g \<noteq> ?f" by simp
  from m2 two f g gf' len1 fc(2) have c1: "mapcounts s2 ! ?f = 1" and c2: "mapcounts s2 ! g = 1"
    by simp_all
  from parent1 q2 have parent2: "pte_at cfg (pagetable (last (processes s2))) vpn = Some ?cow"
    by simp
  from run1 child1 fc parent1 two run2 g gf' child2 c1 c2 q2 parent2 show ?thesis by blast
qed

text \<open>Process 0 of \<open>one_page\<close> forks process 1, which writes to page 0.\<close>

theorem fork_then_child_write_witness:
  "wf_config cfg2 \<and> wf_state cfg2 one_page \<and> share_inv cfg2 one_page \<and>
   1 \<notin> pid ` set (processes one_page) \<and>
   pte_at cfg2 (ptbr one_page) 0 = Some (rw_pte 0) \<and>
   (\<exists>s1 s2. switch_process cfg2 zero_heap 1 one_page = Inr s1 \<and>
      handle_page_fault cfg2 zero_heap 0 RW_WRITE s1 = Inr (Some True, s2) \<and>
      pte_at cfg2 (ptbr s2) 0 = Some (owned_pte 1) \<and>
      mapcounts s2 ! 0 = 1 \<and> mapcounts s2 ! 1 = 1 \<and>
      pte_at cfg2 (pagetable (last (processes s2))) 0 = Some (cow_pte 0))"
proof -
  have 1: "wf_config cfg2" by (simp add: cfg2_def wf_config_def)
  have 2: "wf_state cfg2 one_page" by (simp add: ex_defs wf_defs)
  have 3: "share_inv cfg2 one_page" by (simp add: ex_defs refs_defs upt_rec)
  have 4: "1 \<notin> pid ` set (processes one_page)" by (simp add: ex_defs)
  have 5: "(0::nat) < NR_PTES_PER_PAGE cfg2 * NR_PTES_PER_PAGE cfg2" by (simp add: cfg2_def)
  have 6: "pte_at cfg2 (ptbr one_page) 0 = Some (rw_pte 0)"
    by (simp add: ex_defs pte_at_def ptbr_def)
  have 7: "valid (rw_pte 0)" and 8: "writable (rw_pte 0) \<or> private_flag (rw_pte 0)"
    by (simp_all add: rw_pte_def)
  have 9: "mapcounts one_page ! pfn (rw_pte 0) = 1"
    and 10: "\<exists>k<NR_PAGEFRAMES cfg2. mapcounts one_page ! k = 0"
    by (auto simp add: ex_defs intro: exI [of _ 1])
  have 11: "pfn (rw_pte 0) = 0" by (simp add: rw_pte_def)
  from fork_then_child_write [OF 1 2 3 4 5 6 7 8 9 10, where h = zero_heap]
  obtain s1 s2 g where
    r1: "switch_process cfg2 zero_heap 1 one_page = Inr s1" and
    r2: "handle_page_fault cfg2 zero_heap 0 RW_WRITE s1 = Inr (Some True, s2)" and
    g: "g < NR_PAGEFRAMES cfg2" "g \<noteq> pfn (rw_pte 0)" and
    c: "pte_at cfg2 (ptbr s2) 0 =
          Some \<lparr>valid = True, writable = True, pfn = g, private_flag = True\<rparr>" and
    m: "mapcounts s2 ! pfn (rw_pte 0) = 1" "mapcounts s2 ! g = 1" and
    p: "pte_at cfg2 (pagetable (last (processes s2))) 0 =
          Some \<lparr>valid = True, writable = False, pfn = pfn (rw_pte 0), private_flag = True\<rparr>"
    by blast
  from g 11 have "g = 1" by (simp add: cfg2_def)
  with r1 r2 c m p 11 have
    "switch_process cfg2 zero_heap 1 one_page = Inr s1 \<and>
      handle_page_fault cfg2 zero_heap 0 RW_WRITE s1 = Inr (Some True, s2) \<and>
      pte_at cfg2 (ptbr s2) 0 = Some (owned_pte 1) \<and>
      mapcounts s2 ! 0 = 1 \<and> mapcounts s2 ! 1 = 1 \<and>
      pte_at cfg2 (pagetable (last (processes s2))) 0 = Some (cow_pte 0)"
    by (simp add: owned_pte_def cow_pte_def)
  with 1 2 3 4 6 show ?thesis by blast
qed

text \<open>
  Against claim C4 as stated: after that fork and that write the system is \<open>cow_broken\<close>,
  where the parent's entry for page 0 is not writable.
\<close>

theorem fork_then_child_write_counterexample:
  "switch_process cfg2 zero_heap 1 one_page = Inr forked \<and>
   handle_page_fault cfg2 zero_heap 0 RW_WRITE forked = Inr (Some True, cow_broken) \<and>
   pte_at cfg2 (pagetable (last (processes cow_broken))) 0 = Some (cow_pte 0) \<and>
   \<not> writable (cow_pte 0)"
  by (simp add: switch_process_def handle_page_fault_def alloc_page_def ex_defs ptbr_def
      set_ptbr_def pte_at_def RW_WRITE_def find_free.simps fork_dirs.simps fork_ptes.simps
      Let_def numeral_2_eq_2)

section \<open>The share counts and the valid entries\<close>

text \<open>
  No share count wraps around in a fork as long as the page tables of all processes, the
  child's included, hold fewer than \<open>2^32\<close> entries.
\<close>

lemma u32_cases: "(w :: u32) = 0 \<or> w = 1 \<or> 1 < w"
  by (metis linorder_neqE word_less_1)

lemma unat_u32_add_nat:
  assumes "unat (a :: u32) + r < 2 ^ 32"
  shows "unat (a + word_of_nat r) = unat a + r"
proof -
  from assms have r: "r < 2 ^ 32" by simp
  then have "unat (word_of_nat r :: u32) = r" by (simp add: unat_of_nat)
  moreover from this assms have "unat a + unat (word_of_nat r :: u32) < 2 ^ LENGTH(32)" by simp
  then have "unat (a + word_of_nat r) = unat a + unat (word_of_nat r :: u32)"
    by (simp only: unat_add_lem)
  ultimately show ?thesis by simp
qed

lemma unat_u32_pred: "(w :: u32) \<noteq> 0 \<Longrightarrow> unat (w - 1) + 1 = unat w"
  by (simp add: unat_minus_one unat_gt_0 Suc_leI)

lemma sum_list_le_length_set:
  fixes g :: "'a \<Rightarrow> nat"
  shows "(\<And>x. x \<in> set xs \<Longrightarrow> g x \<le> c) \<Longrightarrow> sum_list (map g xs) \<le> length xs * c"
proof (induction xs)
  case Nil
  then show ?case by simp
next
  case (Cons x xs)
  from Cons.prems have "g x \<le> c" by simp
  moreover from Cons have "sum_list (map g xs) \<le> length xs * c" by simp
  ultimately show ?case by simp
qed

lemma dir_refs_bound:
  assumes "wf_directory cfg d"
  shows "dir_refs f d \<le> NR_PTES_PER_PAGE cfg"
proof (cases d)
  case None
  then show ?thesis by (simp add: dir_refs_def)
next
  case (Some ptes)
  have "sum_list (map (refers f) ptes) \<le> length ptes * 1"
    by (rule sum_list_le_length_set) (simp add: refers_def)
  with Some assms show ?thesis by (simp add: dir_refs_def wf_directory_def)
qed

lemma pt_refs_bound:
  assumes "wf_pagetable cfg pt"
  shows "pt_refs f pt \<le> NR_PTES_PER_PAGE cfg * NR_PTES_PER_PAGE cfg"
proof -
  have "sum_list (map (dir_refs f) pt) \<le> length pt * NR_PTES_PER_PAGE cfg"
  proof (rule sum_list_le_length_set)
    fix d assume "d \<in> set pt"
    with assms have "wf_directory cfg d" by (simp add: wf_pagetable_def list_all_iff)
    then show "dir_refs f d \<le> NR_PTES_PER_PAGE cfg" by (rule dir_refs_bound)
  qed
  with assms show ?thesis by (simp add: pt_refs_def wf_pagetable_def)
qed

lemma total_refs_bound:
  assumes "wf_state cfg s"
  shows "total_refs f s \<le>
         (length (processes s) + 1) * (NR_PTES_PER_PAGE cfg * NR_PTES_PER_PAGE cfg)"
proof -
  let ?c = "NR_PTES_PER_PAGE cfg * NR_PTES_PER_PAGE cfg"
  from assms have "pt_refs f (ptbr s) \<le> ?c" by (simp add: wf_state_def pt_refs_bound)
  moreover have "sum_list (map (\<lambda>p. pt_refs f (pagetable p)) (processes s)) \<le>
                 length (processes s) * ?c"
  proof (rule sum_list_le_length_set)
    fix q assume "q \<in> set (processes s)"
    with assms have "wf_pagetable cfg (pagetable q)" by (simp add: wf_state_def list_all_iff)
    then show "pt_refs f (pagetable q) \<le> ?c" by (rule pt_refs_bound)
  qed
  ultimately show ?thesis by (simp add: total_refs_def)
qed

lemma find_pid_Some: "find_pid p ps = Some k \<Longrightarrow> k < length ps"
  by (simp add: find_pid_Some_iff)

lemma switch_process_found:
  "find_pid p (processes s) = Some k \<Longrightarrow>
   switch_process cfg h p s =
     Inr (s\<lparr>processes := take k (processes s) @ drop (Suc k) (processes s) @ [current s],
             current := processes s ! k\<rparr>)"
  by (simp add: switch_process_def)

lemma wf_state_switch:
  assumes "wf_state cfg s" and "k < length (processes s)"
  shows "wf_state cfg
           (s\<lparr>processes := take k (processes s) @ drop (Suc k) (processes s) @ [current s],
              current := processes s ! k\<rparr>)"
proof -
  let ?ps = "processes s" and ?P = "\<lambda>q. wf_pagetable cfg (pagetable q)"
  from assms(1) have all: "list_all ?P ?ps" and cur: "?P (current s)"
    by (simp_all add: wf_state_def ptbr_def)
  from all assms(2) have "?P (?ps ! k)" by (simp add: list_all_length)
  moreover from all have "list_all ?P (take k ?ps)" and "list_all ?P (drop (Suc k) ?ps)"
    by (auto simp add: list_all_iff dest: in_set_takeD in_set_dropD)
  ultimately show ?thesis using assms(1) cur by (simp add: wf_state_def ptbr_def)
qed

lemma total_refs_switch:
  assumes "k < length (processes s)"
  shows "total_refs f
           (s\<lparr>processes := take k (processes s) @ drop (Suc k) (processes s) @ [current s],
              current := processes s ! k\<rparr>) = total_refs f s"
proof -
  let ?ps = "processes s" and ?g = "\<lambda>q. pt_refs f (pagetable q)"
  from assms have "?ps = take k ?ps @ ?ps ! k # drop (Suc k) ?ps"
    by (simp add: id_take_nth_drop)
  then have "sum_list (map ?g ?ps) =
             sum_list (map ?g (take k ?ps @ ?ps ! k # drop (Suc k) ?ps))" by simp
  then have "sum_list (map ?g ?ps) =
             sum_list (map ?g (take k ?ps)) + ?g (?ps ! k) + sum_list (map ?g (drop (Suc k) ?ps))"
    by simp
  then show ?thesis by (simp add: total_refs_def ptbr_def)
qed

lemma share_inv_switch:
  assumes "share_inv cfg s" and "k < length (processes s)"
  shows "share_inv cfg
           (s\<lparr>processes := take k (processes s) @ drop (Suc k) (processes s) @ [current s],
              current := processes s ! k\<rparr>)"
  using assms(1) unfolding share_inv_iff total_refs_switch [OF assms(2)] by simp

lemma total_refs_fork_state:
  assumes "blank_heap cfg h" and "wf_state cfg s"
  shows "total_refs f (fork_state cfg h p s) = total_refs f s + pt_refs f (ptbr s)"
proof -
  from assms(2) have "wf_pagetable cfg (pagetable (current s))"
    by (simp add: wf_state_def ptbr_def)
  from pt_refs_fork_child_table [OF assms(1) this, of f] show ?thesis
    by (simp add: total_refs_def fork_state_def ptbr_def)
qed

lemma share_inv_fork_state:
  assumes "wf_state cfg s" and "share_inv cfg s"
    and "(length (processes s) + 2) * (NR_PTES_PER_PAGE cfg * NR_PTES_PER_PAGE cfg) < 2 ^ 32"
    and blank: "blank_heap cfg h"
  shows "share_inv cfg (fork_state cfg h p s)"
  unfolding share_inv_iff
proof (intro allI impI)
  fix f assume f: "f < NR_PAGEFRAMES cfg"
  let ?c = "NR_PTES_PER_PAGE cfg * NR_PTES_PER_PAGE cfg"
  from assms(1) have "pt_refs f (ptbr s) \<le> ?c" by (simp add: wf_state_def pt_refs_bound)
  with total_refs_bound [OF assms(1), of f]
  have "total_refs f s + pt_refs f (ptbr s) \<le> (length (processes s) + 2) * ?c" by simp
  with assms(3) have "total_refs f s + pt_refs f (ptbr s) < 2 ^ 32" by simp
  with share_inv_count [OF assms(2) f]
  have "unat (mapcounts s ! f) + pt_refs f (ptbr s) < 2 ^ 32" by simp
  then have "unat (mapcounts s ! f + word_of_nat (pt_refs f (ptbr s))) =
             unat (mapcounts s ! f) + pt_refs f (ptbr s)"
    by (rule unat_u32_add_nat)
  with f share_inv_count [OF assms(2) f]
  show "unat (mapcounts (fork_state cfg h p s) ! f) = total_refs f (fork_state cfg h p s)"
    by (simp add: total_refs_fork_state [OF blank assms(1)])
       (simp add: fork_state_def fork_counts_nth)
qed

text \<open>Each operation keeps the counts right when it is called as it is meant to be.\<close>

lemma refers_le_total_refs:
  assumes "wf_config cfg" and "wf_state cfg s"
    and "vpn < NR_PTES_PER_PAGE cfg * NR_PTES_PER_PAGE cfg"
    and "pte_at cfg (ptbr s) vpn = Some e"
  shows "refers f e \<le> total_refs f s"
proof -
  from assms(2) have "sized_pagetable cfg (ptbr s)"
    by (simp add: wf_state_def wf_pagetable_sized)
  from refers_le_pt_refs [OF assms(1) this assms(3,4), of f] show ?thesis
    by (simp add: total_refs_def)
qed

lemma present_directory:
  "pte_at cfg pt vpn = Some e \<Longrightarrow> pt ! (vpn div NR_PTES_PER_PAGE cfg) = None \<Longrightarrow> P"
  by (simp add: pte_at_def)

lemma alloc_page_preserves:
  assumes "wf_config cfg" and "wf_state cfg s" and "share_inv cfg s"
    and "vpn < NR_PTES_PER_PAGE cfg * NR_PTES_PER_PAGE cfg"
    and "\<not> valid (entry_of cfg h (ptbr s) vpn)"
    and fresh: "ptbr s ! (vpn div NR_PTES_PER_PAGE cfg) = None \<Longrightarrow> blank_heap cfg h"
  shows "\<exists>r s'. alloc_page cfg h vpn rw s = Inr (r, s') \<and> wf_state cfg s' \<and> share_inv cfg s'"
proof (cases "find_free (NR_PAGEFRAMES cfg) (mapcounts s) 0 < NR_PAGEFRAMES cfg")
  case False
  then have "alloc_page cfg h vpn rw s = Inr (- 1, s)" by (simp add: alloc_page_full)
  with assms(2,3) show ?thesis by blast
next
  case True
  let ?nf = "NR_PAGEFRAMES cfg" and ?mc = "mapcounts s"
  let ?g = "find_free ?nf ?mc 0"
  let ?old = "entry_of cfg h (ptbr s) vpn"
  let ?e = "if rw = 2 \<or> rw = 3 then ?old\<lparr>valid := True, pfn := ?g, writable := True\<rparr>
            else ?old\<lparr>valid := True, pfn := ?g\<rparr>"
  let ?mc' = "?mc[?g := ?mc ! ?g + 1]"
  let ?s' = "set_pte cfg h vpn ?e (s\<lparr>mapcounts := ?mc'\<rparr>)"
  from True have g0: "?mc ! ?g = 0" by (rule find_free_is_free)
  from assms(2) have len: "length ?mc = ?nf" by (simp add: wf_state_def)
  have run: "alloc_page cfg h vpn rw s = Inr (word_of_nat ?g, ?s')"
    by (rule alloc_page_run [OF assms(1,4) refl True])
  have e: "valid ?e" "pfn ?e = ?g" by simp_all
  with True have wfe: "wf_pte cfg ?e" by (simp add: wf_pte_def)
  have fresh1: "ptbr (s\<lparr>mapcounts := ?mc'\<rparr>) ! (vpn div NR_PTES_PER_PAGE cfg) = None \<Longrightarrow>
                blank_heap cfg h"
    using fresh by simp
  have "wf_state cfg (s\<lparr>mapcounts := ?mc'\<rparr>)"
    using assms(2) len by (simp add: wf_state_mapcounts_update)
  from wf_state_set_pte [OF assms(1) this assms(4) wfe fresh1]
  have wf': "wf_state cfg ?s'" .
  have "\<forall>f<?nf. unat (?mc' ! f) + refers f ?old = unat (?mc ! f) + refers f ?e"
  proof (intro allI impI)
    fix f assume "f < ?nf"
    show "unat (?mc' ! f) + refers f ?old = unat (?mc ! f) + refers f ?e"
    proof (cases "f = ?g")
      case True
      with g0 len \<open>?g < ?nf\<close> assms(5) e show ?thesis by (simp add: refers_def)
    next
      case False
      with assms(5) e show ?thesis by (simp add: refers_def)
    qed
  qed
  from share_inv_set_pte [OF assms(1,2,3,4) this fresh] have "share_inv cfg ?s'" .
  with run wf' show ?thesis by blast
qed

lemma free_page_preserves:
  assumes "wf_config cfg" and "wf_state cfg s" and "share_inv cfg s"
    and "vpn < NR_PTES_PER_PAGE cfg * NR_PTES_PER_PAGE cfg"
    and "pte_at cfg (ptbr s) vpn = Some e" and "valid e"
  shows "\<exists>s'. free_page cfg vpn s = Inr s' \<and> wf_state cfg s' \<and> share_inv cfg s'"
proof -
  let ?nf = "NR_PAGEFRAMES cfg" and ?mc = "mapcounts s" and ?f0 = "pfn e"
  let ?e' = "e\<lparr>valid := False, writable := False, pfn := 0\<rparr>"
  let ?mc' = "?mc[?f0 := ?mc ! ?f0 - 1]"
  let ?s' = "set_pte cfg h vpn ?e' (s\<lparr>mapcounts := ?mc'\<rparr>)"
  from wf_state_entry [OF assms(1,2,4,5)] assms(6) have f0: "?f0 < ?nf"
    by (auto simp add: wf_pte_def)
  from assms(2) have len: "length ?mc = ?nf" by (simp add: wf_state_def)
  from assms(5) have old: "entry_of cfg h (ptbr s) vpn = e" by (rule entry_of_present)
  have fresh: "ptbr s ! (vpn div NR_PTES_PER_PAGE cfg) = None \<Longrightarrow> blank_heap cfg h"
    by (rule present_directory [OF assms(5)])
  have run: "free_page cfg vpn s = Inr ?s'"
    by (rule free_page_run [OF assms(4,5) f0])
  have wfe: "wf_pte cfg ?e'" by (simp add: wf_pte_def)
  have fresh1: "ptbr (s\<lparr>mapcounts := ?mc'\<rparr>) ! (vpn div NR_PTES_PER_PAGE cfg) = None \<Longrightarrow>
                blank_heap cfg h"
    using fresh by simp
  have "wf_state cfg (s\<lparr>mapcounts := ?mc'\<rparr>)"
    using assms(2) len by (simp add: wf_state_mapcounts_update)
  from wf_state_set_pte [OF assms(1) this assms(4) wfe fresh1]
  have wf': "wf_state cfg ?s'" .
  from refers_le_total_refs [OF assms(1,2,4,5), of ?f0] assms(6)
  have "1 \<le> total_refs ?f0 s" by (simp add: refers_def)
  with share_inv_count [OF assms(3) f0] have nz: "?mc ! ?f0 \<noteq> 0" by auto
  have "\<forall>f<?nf. unat (?mc' ! f) + refers f (entry_of cfg h (ptbr s) vpn) =
                unat (?mc ! f) + refers f ?e'"
  proof (intro allI impI)
    fix f assume "f < ?nf"
    show "unat (?mc' ! f) + refers f (entry_of cfg h (ptbr s) vpn) =
          unat (?mc ! f) + refers f ?e'"
    proof (cases "f = ?f0")
      case True
      with f0 len assms(6) unat_u32_pred [OF nz] show ?thesis
        by (simp add: old refers_def)
    next
      case False
      then show ?thesis by (simp add: old refers_def)
    qed
  qed
  from share_inv_set_pte [OF assms(1,2,3,4) this fresh] have "share_inv cfg ?s'" .
  with run wf' show ?thesis by blast
qed

lemma handle_page_fault_preserves:
  assumes "wf_config cfg" and "wf_state cfg s" and "share_inv cfg s"
    and "vpn < NR_PTES_PER_PAGE cfg * NR_PTES_PER_PAGE cfg"
    and "pte_at cfg (ptbr s) vpn = Some e"
    and "valid e \<and> private_flag e \<and> 1 < mapcounts s ! pfn e \<longrightarrow>
         (\<exists>k<NR_PAGEFRAMES cfg. mapcounts s ! k = 0)"
  shows "\<exists>r s'. handle_page_fault cfg h vpn rw s = Inr (r, s') \<and>
                wf_state cfg s' \<and> share_inv cfg s'"
proof (cases "valid e \<and> private_flag e")
  case False
  with fault_unchanged_run [OF assms(4,5), where rw = rw and h = h] assms(2,3)
  show ?thesis by blast
next
  case True
  let ?nf = "NR_PAGEFRAMES cfg" and ?mc = "mapcounts s" and ?f0 = "pfn e"
  from True have v: "valid e" and c: "private_flag e" by simp_all
  from wf_state_entry [OF assms(1,2,4,5)] v have f0: "?f0 < ?nf"
    by (auto simp add: wf_pte_def)
  from assms(2) have len: "length ?mc = ?nf" by (simp add: wf_state_def)
  from assms(5) have old: "entry_of cfg h (ptbr s) vpn = e" by (rule entry_of_present)
  have fresh: "ptbr s ! (vpn div NR_PTES_PER_PAGE cfg) = None \<Longrightarrow> blank_heap cfg h"
    by (rule present_directory [OF assms(5)])
  consider "?mc ! ?f0 = 0" | "?mc ! ?f0 = 1" | "1 < ?mc ! ?f0"
    using u32_cases by blast
  then show ?thesis
  proof cases
    case 1
    with fault_unchanged_run [OF assms(4,5), where rw = rw and h = h] f0 assms(2,3)
    show ?thesis by blast
  next
    case 2
    let ?e' = "e\<lparr>writable := True\<rparr>"
    let ?s' = "set_pte cfg h vpn ?e' s"
    have run: "handle_page_fault cfg h vpn rw s = Inr (Some True, ?s')"
      by (rule fault_last_sharer_run [OF assms(4,5) v c f0 2])
    from wf_state_entry [OF assms(1,2,4,5)] have "wf_pte cfg ?e'"
      by (auto simp add: wf_pte_def)
    from wf_state_set_pte [OF assms(1,2,4) this fresh] have wf': "wf_state cfg ?s'" .
    have "\<forall>f<?nf. unat (?mc ! f) + refers f (entry_of cfg h (ptbr s) vpn) =
                  unat (?mc ! f) + refers f ?e'"
      by (simp add: old refers_def)
    from share_inv_set_pte [OF assms(1,2,3,4) this fresh] have "share_inv cfg ?s'" by simp
    with run wf' show ?thesis by blast
  next
    case 3
    let ?g = "find_free ?nf ?mc 0"
    let ?e' = "e\<lparr>valid := True, pfn := ?g, writable := True\<rparr>"
    let ?mc' = "?mc[?f0 := ?mc ! ?f0 - 1, ?g := 1]"
    let ?s' = "set_pte cfg h vpn ?e' (s\<lparr>mapcounts := ?mc'\<rparr>)"
    from 3 True assms(6) obtain k where "k < ?nf" and "?mc ! k = 0" by blast
    then have g: "?g < ?nf" using find_free_finds [of 0 k ?nf ?mc] by simp
    from fault_shared_run [OF assms(1,4,5) v c f0 3 refl g, where rw = rw and h = h]
    have run: "handle_page_fault cfg h vpn rw s = Inr (Some True, ?s')"
      and g0: "?mc ! ?g = 0" and gf: "?g \<noteq> ?f0"
      by simp_all
    have wfe: "wf_pte cfg ?e'" using g by (simp add: wf_pte_def)
    have fresh1: "ptbr (s\<lparr>mapcounts := ?mc'\<rparr>) ! (vpn div NR_PTES_PER_PAGE cfg) = None \<Longrightarrow>
                  blank_heap cfg h"
      using fresh by simp
    have "wf_state cfg (s\<lparr>mapcounts := ?mc'\<rparr>)"
      using assms(2) len by (simp add: wf_state_mapcounts_update)
    from wf_state_set_pte [OF assms(1) this assms(4) wfe fresh1]
    have wf': "wf_state cfg ?s'" .
    from 3 have nz: "?mc ! ?f0 \<noteq> 0" by auto
    have "\<forall>f<?nf. unat (?mc' ! f) + refers f (entry_of cfg h (ptbr s) vpn) =
                  unat (?mc ! f) + refers f ?e'"
    proof (intro allI impI)
      fix f assume "f < ?nf"
      consider "f = ?f0" | "f = ?g" | "f \<noteq> ?f0 \<and> f \<noteq> ?g" by blast
      then show "unat (?mc' ! f) + refers f (entry_of cfg h (ptbr s) vpn) =
                 unat (?mc ! f) + refers f ?e'"
      proof cases
        case 1
        with f0 len gf v unat_u32_pred [OF nz] show ?thesis
          by (simp add: old refers_def)
      next
        case 2
        with g len gf g0 v show ?thesis by (simp add: old refers_def)
      next
        case 3
        with v show ?thesis by (simp add: old refers_def)
      qed
    qed
    from share_inv_set_pte [OF assms(1,2,3,4) this fresh] have "share_inv cfg ?s'" .
    with run wf' show ?thesis by blast
  qed
qed

lemma switch_process_preserves:
  assumes "wf_state cfg s" and "share_inv cfg s"
    and "(length (processes s) + 2) * (NR_PTES_PER_PAGE cfg * NR_PTES_PER_PAGE cfg) < 2 ^ 32"
    and fresh: "p \<notin> pid ` set (processes s) \<Longrightarrow> blank_heap cfg h"
  shows "\<exists>s'. switch_process cfg h p s = Inr s' \<and> wf_state cfg s' \<and> share_inv cfg s'"
proof (cases "find_pid p (processes s)")
  case None
  then have blank: "blank_heap cfg h" using fresh by (simp add: find_pid_None_iff)
  from switch_process_fork [OF assms(1) None, where h = h]
    wf_state_fork_state [OF blank assms(1), where p = p]
    share_inv_fork_state [OF assms(1-3) blank, where p = p]
  show ?thesis by blast
next
  case (Some k)
  then have k: "k < length (processes s)" by (rule find_pid_Some)
  from switch_process_found [OF Some, where cfg = cfg and h = h] wf_state_switch [OF assms(1) k]
    share_inv_switch [OF assms(2) k]
  show ?thesis by blast
qed

text \<open>
  Summed over the frames, the counts of the entries that name each frame give the number
  of valid entries: a well-formed entry names one frame of the table.
\<close>

lemma sum_list_swap:
  fixes g :: "'a \<Rightarrow> 'b \<Rightarrow> nat"
  shows "sum_list (map (\<lambda>x. sum_list (map (g x) ys)) xs) =
         sum_list (map (\<lambda>y. sum_list (map (\<lambda>x. g x y) xs)) ys)"
proof (induction xs)
  case Nil
  then show ?case by simp
next
  case (Cons x xs)
  then show ?case by (simp add: sum_list_addf)
qed

lemma sum_refers:
  assumes "wf_pte cfg e"
  shows "sum_list (map (\<lambda>f. refers f e) [0..<NR_PAGEFRAMES cfg]) = (if valid e then 1 else 0)"
proof (cases "valid e")
  case False
  then show ?thesis by (simp add: refers_def)
next
  case True
  with assms have f: "pfn e < NR_PAGEFRAMES cfg" by (simp add: wf_pte_def)
  have "sum_list (map (\<lambda>f. refers f e) [0..<NR_PAGEFRAMES cfg]) =
        (\<Sum>f\<in>{0..<NR_PAGEFRAMES cfg}. if pfn e = f then 1 else 0)"
    using True by (simp add: refers_def interv_sum_list_conv_sum_set_nat)
  also have "\<dots> = 1" using f by (simp add: sum.delta')
  finally show ?thesis using True by simp
qed

lemma sum_dir_refs:
  assumes "wf_directory cfg d"
  shows "sum_list (map (\<lambda>f. dir_refs f d) [0..<NR_PAGEFRAMES cfg]) = dir_valid d"
proof (cases d)
  case None
  then show ?thesis by (simp add: dir_refs_def dir_valid_def)
next
  case (Some ptes)
  with assms have wf: "list_all (wf_pte cfg) ptes" by (simp add: wf_directory_def)
  have "sum_list (map (\<lambda>f. sum_list (map (refers f) ptes)) [0..<NR_PAGEFRAMES cfg]) =
        sum_list (map (\<lambda>e. sum_list (map (\<lambda>f. refers f e) [0..<NR_PAGEFRAMES cfg])) ptes)"
    by (rule sum_list_swap)
  also have "\<dots> = sum_list (map (\<lambda>e. if valid e then 1 else 0) ptes)"
    using wf by (intro arg_cong [where f = sum_list] map_cong refl)
      (simp add: list_all_iff sum_refers)
  also have "\<dots> = length (filter valid ptes)"
    by (induction ptes) simp_all
  finally show ?thesis using Some by (simp add: dir_refs_def dir_valid_def)
qed

lemma sum_pt_refs:
  assumes "wf_pagetable cfg pt"
  shows "sum_list (map (\<lambda>f. pt_refs f pt) [0..<NR_PAGEFRAMES cfg]) = pt_valid pt"
proof -
  have "sum_list (map (\<lambda>f. sum_list (map (dir_refs f) pt)) [0..<NR_PAGEFRAMES cfg]) =
        sum_list (map (\<lambda>d. sum_list (map (\<lambda>f. dir_refs f d) [0..<NR_PAGEFRAMES cfg])) pt)"
    by (rule sum_list_swap)
  also have "\<dots> = sum_list (map dir_valid pt)"
    using assms by (intro arg_cong [where f = sum_list] map_cong refl)
      (simp add: wf_pagetable_def list_all_iff sum_dir_refs)
  finally show ?thesis by (simp add: pt_refs_def pt_valid_def)
qed

lemma sum_total_refs:
  assumes "wf_state cfg s"
  shows "sum_list (map (\<lambda>f. total_refs f s) [0..<NR_PAGEFRAMES cfg]) = total_valid s"
proof -
  let ?F = "[0..<NR_PAGEFRAMES cfg]"
  from assms have cur: "wf_pagetable cfg (ptbr s)"
    and all: "list_all (\<lambda>p. wf_pagetable cfg (pagetable p)) (processes s)"
    by (simp_all add: wf_state_def)
  have "sum_list (map (\<lambda>f. total_refs f s) ?F) =
        sum_list (map (\<lambda>f. pt_refs f (ptbr s)) ?F) +
        sum_list (map (\<lambda>f. sum_list (map (\<lambda>p. pt_refs f (pagetable p)) (processes s))) ?F)"
    by (simp add: total_refs_def sum_list_addf)
  also have "sum_list (map (\<lambda>f. sum_list (map (\<lambda>p. pt_refs f (pagetable p)) (processes s))) ?F) =
        sum_list (map (\<lambda>p. sum_list (map (\<lambda>f. pt_refs f (pagetable p)) ?F)) (processes s))"
    by (rule sum_list_swap)
  also have "\<dots> = sum_list (map (\<lambda>p. pt_valid (pagetable p)) (processes s))"
    using all by (intro arg_cong [where f = sum_list] map_cong refl)
      (simp add: list_all_iff sum_pt_refs)
  finally show ?thesis using cur by (simp add: sum_pt_refs total_valid_def)
qed

lemma share_inv_sum:
  assumes "wf_state cfg s" and "share_inv cfg s"
  shows "sum_list (map unat (mapcounts s)) = total_valid s"
proof -
  let ?F = "[0..<NR_PAGEFRAMES cfg]"
  from assms(1) have len: "length (mapcounts s) = NR_PAGEFRAMES cfg" by (simp add: wf_state_def)
  then have "map unat (mapcounts s) = map (\<lambda>f. unat (mapcounts s ! f)) ?F"
    by (intro nth_equalityI) simp_all
  also have "\<dots> = map (\<lambda>f. total_refs f s) ?F"
    using assms(2) by (intro map_cong refl) (simp add: share_inv_iff)
  finally show ?thesis using sum_total_refs [OF assms(1)] by simp
qed

text \<open>
  Claim C2, where the code keeps it.  Take a well-formed state in which every frame's
  share count is the number of valid entries, over all processes, that name the frame; then
  the share counts add up to the number of valid entries.  Both facts, and well-formedness,
  hold again after \<open>alloc_page\<close> on a page that is not mapped, after \<open>free_page\<close> on a
  page that is mapped, after \<open>handle_page_fault\<close> on a page under a present directory
  provided a frame is free when the page is COW on a frame with share count above 1, and
  after \<open>switch_process\<close> provided the tables of all processes and of a child hold fewer
  than \<open>2^32\<close> entries, so that no count wraps.  Where the call takes memory from
  \<open>malloc\<close> (\<open>alloc_page\<close> under an outer slot not in use, \<open>switch_process\<close> with a pid
  that is not in the ready queue) the heap has to be without stale mappings.  Each call is
  also shown to return.
\<close>

theorem share_counts_preserved:
  assumes "wf_config cfg" and "wf_state cfg s" and "share_inv cfg s"
    and "vpn < NR_PTES_PER_PAGE cfg * NR_PTES_PER_PAGE cfg"
  shows "sum_list (map unat (mapcounts s)) = total_valid s \<and>
         (\<not> valid (entry_of cfg h (ptbr s) vpn) \<and>
          (ptbr s ! (vpn div NR_PTES_PER_PAGE cfg) = None \<longrightarrow> blank_heap cfg h) \<longrightarrow>
            (\<exists>r s'. alloc_page cfg h vpn rw s = Inr (r, s') \<and>
               wf_state cfg s' \<and> share_inv cfg s' \<and>
               sum_list (map unat (mapcounts s')) = total_valid s')) \<and>
         (\<forall>e. pte_at cfg (ptbr s) vpn = Some e \<and> valid e \<longrightarrow>
            (\<exists>s'. free_page cfg vpn s = Inr s' \<and>
               wf_state cfg s' \<and> share_inv cfg s' \<and>
               sum_list (map unat (mapcounts s')) = total_valid s')) \<and>
         (\<forall>e. pte_at cfg (ptbr s) vpn = Some e \<and>
              (valid e \<and> private_flag e \<and> 1 < mapcounts s ! pfn e \<longrightarrow>
                 (\<exists>k<NR_PAGEFRAMES cfg. mapcounts s ! k = 0)) \<longrightarrow>
            (\<exists>r s'. handle_page_fault cfg h vpn rw s = Inr (r, s') \<and>
               wf_state cfg s' \<and> share_inv cfg s' \<and>
               sum_list (map unat (mapcounts s')) = total_valid s')) \<and>
         ((length (processes s) + 2) * (NR_PTES_PER_PAGE cfg * NR_PTES_PER_PAGE cfg) < 2 ^ 32 \<and>
          (p \<notin> pid ` set (processes s) \<longrightarrow> blank_heap cfg h) \<longrightarrow>
            (\<exists>s'. switch_process cfg h p s = Inr s' \<and>
               wf_state cfg s' \<and> share_inv cfg s' \<and>
               sum_list (map unat (mapcounts s')) = total_valid s'))"
proof -
  have before: "sum_list (map unat (mapcounts s)) = total_valid s"
    by (rule share_inv_sum [OF assms(2,3)])
  have alloc: "\<exists>r s'. alloc_page cfg h vpn rw s = Inr (r, s') \<and>
               wf_state cfg s' \<and> share_inv cfg s' \<and>
               sum_list (map unat (mapcounts s')) = total_valid s'"
    if "\<not> valid (entry_of cfg h (ptbr s) vpn) \<and>
        (ptbr s ! (vpn div NR_PTES_PER_PAGE cfg) = None \<longrightarrow> blank_heap cfg h)"
    using alloc_page_preserves [OF assms, where rw = rw and h = h] that share_inv_sum
    by blast
  have free: "\<exists>s'. free_page cfg vpn s = Inr s' \<and>
               wf_state cfg s' \<and> share_inv cfg s' \<and>
               sum_list (map unat (mapcounts s')) = total_valid s'"
    if "pte_at cfg (ptbr s) vpn = Some e \<and> valid e" for e
    using free_page_preserves [OF assms, where e = e] that share_inv_sum by blast
  have fault: "\<exists>r s'. handle_page_fault cfg h vpn rw s = Inr (r, s') \<and>
               wf_state cfg s' \<and> share_inv cfg s' \<and>
               sum_list (map unat (mapcounts s')) = total_valid s'"
    if "pte_at cfg (ptbr s) vpn = Some e \<and>
        (valid e \<and> private_flag e \<and> 1 < mapcounts s ! pfn e \<longrightarrow>
           (\<exists>k<NR_PAGEFRAMES cfg. mapcounts s ! k = 0))" for e
    using handle_page_fault_preserves [OF assms, where rw = rw and h = h and e = e] that
      share_inv_sum
    by blast
  have switch: "\<exists>s'. switch_process cfg h p s = Inr s' \<and>
               wf_state cfg s' \<and> share_inv cfg s' \<and>
               sum_list (map unat (mapcounts s')) = total_valid s'"
    if "(length (processes s) + 2) * (NR_PTES_PER_PAGE cfg * NR_PTES_PER_PAGE cfg) < 2 ^ 32 \<and>
        (p \<notin> pid ` set (processes s) \<longrightarrow> blank_heap cfg h)"
    using switch_process_preserves [OF assms(2,3), where p = p and h = h] that share_inv_sum
    by blast
  show ?thesis
    by (intro conjI allI impI) (rule before alloc free fault switch; assumption)+
qed

text \<open>
  In \<open>one_page\<close>: mapping page 2, under an outer slot not in use, freeing page 0, forking
  process 1.  In \<open>forked\<close>: the write fault of process 1 on the shared page 0, and the
  switch back to process 0.
\<close>

theorem share_counts_preserved_witness:
  "wf_config cfg2 \<and> wf_state cfg2 one_page \<and> share_inv cfg2 one_page \<and>
   wf_state cfg2 forked \<and> share_inv cfg2 forked \<and> blank_heap cfg2 zero_heap \<and>
   (\<exists>r s'. alloc_page cfg2 zero_heap 2 RW_READ one_page = Inr (r, s') \<and>
      wf_state cfg2 s' \<and> share_inv cfg2 s' \<and>
      sum_list (map unat (mapcounts s')) = total_valid s') \<and>
   (\<exists>s'. free_page cfg2 0 one_page = Inr s' \<and>
      wf_state cfg2 s' \<and> share_inv cfg2 s' \<and>
      sum_list (map unat (mapcounts s')) = total_valid s') \<and>
   (\<exists>r s'. handle_page_fault cfg2 zero_heap 0 RW_WRITE forked = Inr (r, s') \<and>
      wf_state cfg2 s' \<and> share_inv cfg2 s' \<and>
      sum_list (map unat (mapcounts s')) = total_valid s') \<and>
   (\<exists>s'. switch_process cfg2 zero_heap 1 one_page = Inr s' \<and>
      wf_state cfg2 s' \<and> share_inv cfg2 s' \<and>
      sum_list (map unat (mapcounts s')) = total_valid s') \<and>
   (\<exists>s'. switch_process cfg2 zero_heap 0 forked = Inr s' \<and>
      wf_state cfg2 s' \<and> share_inv cfg2 s' \<and>
      sum_list (map unat (mapcounts s')) = total_valid s')"
proof -
  have c: "wf_config cfg2" by (simp add: cfg2_def wf_config_def)
  have w1: "wf_state cfg2 one_page" and w2: "wf_state cfg2 forked"
    by (simp_all add: ex_defs wf_defs)
  have i1: "share_inv cfg2 one_page" and i2: "share_inv cfg2 forked"
    by (simp_all add: ex_defs refs_defs upt_rec)
  have b: "blank_heap cfg2 zero_heap"
    by (simp add: blank_heap_def ex_defs upt_rec)
  have v0: "(0::nat) < NR_PTES_PER_PAGE cfg2 * NR_PTES_PER_PAGE cfg2"
    and v2: "(2::nat) < NR_PTES_PER_PAGE cfg2 * NR_PTES_PER_PAGE cfg2"
    by (simp_all add: cfg2_def)
  have a: "\<not> valid (entry_of cfg2 zero_heap (ptbr one_page) 2)"
    by (simp add: ex_defs entry_of_def pte_at_def ptbr_def)
  have f: "pte_at cfg2 (ptbr one_page) 0 = Some (rw_pte 0) \<and> valid (rw_pte 0)"
    by (simp add: ex_defs pte_at_def ptbr_def)
  have h: "pte_at cfg2 (ptbr forked) 0 = Some (cow_pte 0) \<and>
           (valid (cow_pte 0) \<and> private_flag (cow_pte 0) \<and>
            1 < mapcounts forked ! pfn (cow_pte 0) \<longrightarrow>
            (\<exists>k<NR_PAGEFRAMES cfg2. mapcounts forked ! k = 0))"
    by (auto simp add: ex_defs pte_at_def ptbr_def intro: exI [of _ 1])
  have n1: "(length (processes one_page) + 2) *
              (NR_PTES_PER_PAGE cfg2 * NR_PTES_PER_PAGE cfg2) < 2 ^ 32"
    and n2: "(length (processes forked) + 2) *
              (NR_PTES_PER_PAGE cfg2 * NR_PTES_PER_PAGE cfg2) < 2 ^ 32"
    by (simp_all add: ex_defs)
  from share_counts_preserved [OF c w1 i1 v2, where rw = RW_READ and p = 1 and h = zero_heap]
    a b
  have r1: "\<exists>r s'. alloc_page cfg2 zero_heap 2 RW_READ one_page = Inr (r, s') \<and>
      wf_state cfg2 s' \<and> share_inv cfg2 s' \<and>
      sum_list (map unat (mapcounts s')) = total_valid s'"
    by blast
  from share_counts_preserved [OF c w1 i1 v0, where rw = RW_READ and p = 1 and h = zero_heap]
    f n1 b
  have r2: "\<exists>s'. free_page cfg2 0 one_page = Inr s' \<and>
      wf_state cfg2 s' \<and> share_inv cfg2 s' \<and>
      sum_list (map unat (mapcounts s')) = total_valid s'"
    and r4: "\<exists>s'. switch_process cfg2 zero_heap 1 one_page = Inr s' \<and>
      wf_state cfg2 s' \<and> share_inv cfg2 s' \<and>
      sum_list (map unat (mapcounts s')) = total_valid s'"
    by blast+
  from share_counts_preserved [OF c w2 i2 v0, where rw = RW_WRITE and p = 0 and h = zero_heap]
    h n2 b
  have r3: "\<exists>r s'. handle_page_fault cfg2 zero_heap 0 RW_WRITE forked = Inr (r, s') \<and>
      wf_state cfg2 s' \<and> share_inv cfg2 s' \<and>
      sum_list (map unat (mapcounts s')) = total_valid s'"
    and r5: "\<exists>s'. switch_process cfg2 zero_heap 0 forked = Inr s' \<and>
      wf_state cfg2 s' \<and> share_inv cfg2 s' \<and>
      sum_list (map unat (mapcounts s')) = total_valid s'"
    by blast+
  from c w1 i1 w2 i2 b r1 r2 r3 r4 r5 show ?thesis by blast
qed

text \<open>
  Against the code, for claim C2.  From the empty system, on a heap of zeros, process 0
  maps pages 0 and 1 for writing, which takes both frames, and forks process 1; every call
  is within its contract and the counts are right after each.  Process 1 then writes to the
  shared page 0.  \<open>handle_page_fault\<close> lowers the count of frame 0, \<open>alloc_page\<close> finds
  no free frame and returns -1, which is dropped, and the call returns true: frame 0 has
  count 1 and two valid entries, and the counts add up to 3 for 4 valid entries.
\<close>

lemmas valid_defs = total_valid_def pt_valid_def dir_valid_def ptbr_def

theorem share_counts_counterexample:
  "alloc_page cfg2 zero_heap 0 RW_WRITE (boot cfg2) = Inr (0, one_page) \<and>
   alloc_page cfg2 zero_heap 1 RW_WRITE one_page = Inr (1, two_pages) \<and>
   switch_process cfg2 zero_heap 1 two_pages = Inr forked_full \<and>
   share_inv cfg2 (boot cfg2) \<and> share_inv cfg2 one_page \<and> share_inv cfg2 two_pages \<and>
   share_inv cfg2 forked_full \<and>
   handle_page_fault cfg2 zero_heap 0 RW_WRITE forked_full =
     Inr (Some True, forked_full\<lparr>mapcounts := [1, 2]\<rparr>) \<and>
   \<not> share_inv cfg2 (forked_full\<lparr>mapcounts := [1, 2]\<rparr>) \<and>
   unat (mapcounts (forked_full\<lparr>mapcounts := [1, 2]\<rparr>) ! 0) = 1 \<and>
   total_refs 0 (forked_full\<lparr>mapcounts := [1, 2]\<rparr>) = 2 \<and>
   sum_list (map unat (mapcounts (forked_full\<lparr>mapcounts := [1, 2]\<rparr>))) = 3 \<and>
   total_valid (forked_full\<lparr>mapcounts := [1, 2]\<rparr>) = 4"
proof -
  have 1: "alloc_page cfg2 zero_heap 0 RW_WRITE (boot cfg2) = Inr (0, one_page)"
    by (simp add: alloc_page_def ex_defs ptbr_def set_ptbr_def RW_WRITE_def find_free.simps
        Let_def upt_rec numeral_2_eq_2)
  have 2: "alloc_page cfg2 zero_heap 1 RW_WRITE one_page = Inr (1, two_pages)"
    by (simp add: alloc_page_def ex_defs ptbr_def set_ptbr_def RW_WRITE_def find_free.simps
        Let_def)
  have 3: "switch_process cfg2 zero_heap 1 two_pages = Inr forked_full"
    by (simp add: switch_process_def ex_defs ptbr_def fork_dirs.simps fork_ptes.simps
        Let_def upt_rec numeral_2_eq_2)
  have 0: "share_inv cfg2 (boot cfg2)"
    by (simp add: ex_defs refs_defs upt_rec numeral_2_eq_2)
  have 4: "share_inv cfg2 one_page" "share_inv cfg2 two_pages" "share_inv cfg2 forked_full"
    by (simp_all add: ex_defs refs_defs upt_rec)
  have 5: "handle_page_fault cfg2 zero_heap 0 RW_WRITE forked_full =
             Inr (Some True, forked_full\<lparr>mapcounts := [1, 2]\<rparr>)"
    by (simp add: handle_page_fault_def alloc_page_def ex_defs ptbr_def RW_WRITE_def
        find_free.simps Let_def)
  have 6: "\<not> share_inv cfg2 (forked_full\<lparr>mapcounts := [1, 2]\<rparr>)"
    "unat (mapcounts (forked_full\<lparr>mapcounts := [1, 2]\<rparr>) ! 0) = 1"
    "total_refs 0 (forked_full\<lparr>mapcounts := [1, 2]\<rparr>) = 2"
    by (simp_all add: ex_defs refs_defs upt_rec)
  have 7: "sum_list (map unat (mapcounts (forked_full\<lparr>mapcounts := [1, 2]\<rparr>))) = 3"
    "total_valid (forked_full\<lparr>mapcounts := [1, 2]\<rparr>) = 4"
    by (simp_all add: ex_defs valid_defs)
  from 0 1 2 3 4 5 6 7 show ?thesis by simp
qed

text \<open>
  The preconditions of the theorem are those of the calls.  \<open>free_page\<close> on the invalid
  entry of page 1 of \<open>one_page\<close> lowers the count of frame 0, which page 0 still maps, and
  \<open>alloc_page\<close> on the mapped page 0 takes frame 1 without giving frame 0 back; and a
  fork on a heap that was used before gives the child valid entries that no count knows
  of: page 1 of the child of \<open>one_page\<close> is on frame 1, whose count is 0.
\<close>

lemma share_counts_outside_contract:
  "wf_state cfg2 one_page \<and> share_inv cfg2 one_page \<and>
   free_page cfg2 1 one_page = Inr (one_page\<lparr>mapcounts := [0, 0]\<rparr>) \<and>
   \<not> share_inv cfg2 (one_page\<lparr>mapcounts := [0, 0]\<rparr>) \<and>
   alloc_page cfg2 zero_heap 0 RW_WRITE one_page =
     Inr (1, \<lparr>processes = [],
              current = \<lparr>pid = 0, pagetable = [Some [rw_pte 1, zero_pte], None]\<rparr>,
              mapcounts = [1, 1]\<rparr>) \<and>
   \<not> share_inv cfg2 \<lparr>processes = [],
              current = \<lparr>pid = 0, pagetable = [Some [rw_pte 1, zero_pte], None]\<rparr>,
              mapcounts = [1, 1]\<rparr>"
  by (simp add: free_page_def alloc_page_def ex_defs wf_defs refs_defs upt_rec
      set_ptbr_def pte_at_def RW_WRITE_def find_free.simps Let_def)

lemma share_counts_used_heap:
  "\<not> blank_heap cfg2 used_heap \<and>
   (\<exists>s'. switch_process cfg2 used_heap 1 one_page = Inr s' \<and>
         pte_at cfg2 (ptbr s') 1 =
           Some \<lparr>valid = True, writable = True, pfn = 1, private_flag = False\<rparr> \<and>
         mapcounts s' = [2, 0] \<and> \<not> share_inv cfg2 s')"
  by (simp add: switch_process_def blank_heap_def ex_defs ptbr_def fork_dirs.simps
      fork_ptes.simps pte_at_def refs_defs Let_def upt_rec numeral_2_eq_2)

end
